theory Spec2Isabelle
  imports Main
begin

section \<open>Request bodies and JavaScript truthiness\<close>

text \<open>
  A request body is the object that \<open>express.json()\<close> parsed: a finite map from
  field names to JSON values; a field that is absent reads as \<open>undefined\<close>, here
  \<open>None\<close>. Numbers are integers (a fractional number is truthy like any other
  non-zero number and fits no column of the table).
\<close>

datatype json =
    JNull
  | JBool bool
  | JNum int
  | JStr string
  | JArr "json list"
  | JObj "(string \<times> json) list"

text \<open>\<open>!v\<close>: the values JavaScript takes for false.\<close>

fun falsy :: "json option \<Rightarrow> bool" where
  "falsy None = True"
| "falsy (Some JNull) = True"
| "falsy (Some (JBool b)) = (b = False)"
| "falsy (Some (JNum n)) = (n = 0)"
| "falsy (Some (JStr s)) = (s = [])"
| "falsy (Some (JArr xs)) = False"
| "falsy (Some (JObj kvs)) = False"

text \<open>A number inside a template literal: its decimal digits.\<close>

definition digit :: "nat \<Rightarrow> char" where
  "digit n = ''0123456789'' ! n"

function digits :: "nat \<Rightarrow> string" where
  "digits n = (if n < 10 then [digit n] else digits (n div 10) @ [digit (n mod 10)])"
  by pat_completeness auto
termination
  by (relation "measure (\<lambda>n. n)") auto

declare digits.simps [simp del]

definition show_int :: "int \<Rightarrow> string" where
  "show_int i = (if i < 0 then CHR ''-'' # digits (nat (- i)) else digits (nat i))"

section \<open>The customers table\<close>

text \<open>
  The Customer model definition (\<open>sequelize.define('customer', ...)\<close>): an
  auto-increment integer primary key, \<open>firstname\<close> and \<open>lastname\<close> strings with
  \<open>allowNull: false\<close>, a nullable integer \<open>age\<close>, a nullable string \<open>address\<close>,
  and the two timestamps that \<open>timestamps: true\<close> adds. No column has a validator
  other than \<open>allowNull\<close>. Timestamps are clock readings in milliseconds.
\<close>

record customer =
  id_col :: int
  firstname :: string
  lastname :: string
  age :: "int option"
  address :: "string option"
  createdAt :: nat
  updatedAt :: nat

text \<open>The table: its rows in insertion order, and the sequence behind the primary key.\<close>

record table =
  rows :: "customer list"
  next_id :: int

definition empty_table :: table where
  "empty_table = \<lparr>rows = [], next_id = 1\<rparr>"

text \<open>
  What the database engine contributes to one call, beyond the table: \<open>fault\<close> is
  an error the engine or the driver raises on this call for a reason of its own (host
  unreachable, authentication lost, a limit of the engine exceeded), carrying that
  error's message; \<open>now\<close> is the clock reading that stamps the rows written.
\<close>

record driver =
  fault :: "string option"
  now :: nat

text \<open>A JavaScript \<open>Error\<close>, reduced to its \<open>message\<close>.\<close>

datatype error = Error string

section \<open>The data-access layer\<close>

text \<open>
  Modelled from the spec: the data-access layer. The controller reaches the table
  through \<open>db.customers\<close>, which the module \<open>app/models\<close> builds with the
  object-relational mapper; neither that module nor the mapper is among the sources.
  The layer is modelled as the operations the controller calls on it (section 2 of the
  specification: create, read, update and delete over the schema), over the table
  above, with the column declarations of the Customer model definition and of the
  schema in the README: \<open>firstname\<close>, \<open>lastname\<close> and \<open>address\<close> are
  \<open>VARCHAR(255)\<close>, \<open>age\<close> and \<open>id\<close> are 32-bit integers, \<open>id\<close> is the primary key
  and is drawn from the sequence on insert, and the timestamps are set by the layer on
  insert and on update. An operation first validates its values (\<open>allowNull\<close>, and
  no array or object for a string column), then sends its statement to the engine,
  where the engine's own fault surfaces, and the engine converts each value to the type
  of its column.
\<close>

definition int4 :: "int \<Rightarrow> bool" where
  "int4 n = (- 2147483648 \<le> n \<and> n \<le> 2147483647)"

definition quoted :: "string \<Rightarrow> string" where
  "quoted s = CHR 0x22 # s @ [CHR 0x22]"

text \<open>
  A text stored in a \<open>VARCHAR(255)\<close> column: the engine takes no text with a zero
  character, and one of more than 255 characters is refused, unless the characters in
  excess are all spaces, which are cut off.
\<close>

definition varchar :: "string \<Rightarrow> error + string" where
  "varchar s =
     (if CHR 0x00 \<in> set s then
        Inl (Error (''invalid byte sequence for encoding '' @ quoted ''UTF8'' @ '': 0x00''))
      else if length s \<le> 255 then Inr s
      else if list_all (\<lambda>c. c = CHR '' '') (drop 255 s) then Inr (take 255 s)
      else Inl (Error ''value too long for type character varying(255)''))"

text \<open>
  A text read as a 32-bit integer by the engine: white space, an optional sign, decimal
  digits, white space.
\<close>

definition is_space :: "char \<Rightarrow> bool" where
  "is_space c = (c \<in> set [CHR '' '', CHR 0x09, CHR 0x0A, CHR 0x0B, CHR 0x0C, CHR 0x0D])"

definition digit_value :: "char \<Rightarrow> int option" where
  "digit_value c =
     map_of [(CHR ''0'', 0), (CHR ''1'', 1), (CHR ''2'', 2), (CHR ''3'', 3), (CHR ''4'', 4),
             (CHR ''5'', 5), (CHR ''6'', 6), (CHR ''7'', 7), (CHR ''8'', 8), (CHR ''9'', 9)] c"

fun decimal :: "int \<Rightarrow> string \<Rightarrow> int option" where
  "decimal acc [] = Some acc"
| "decimal acc (c # cs) =
     (case digit_value c of None \<Rightarrow> None | Some d \<Rightarrow> decimal (10 * acc + d) cs)"

definition int4in :: "string \<Rightarrow> error + int" where
  "int4in s =
     (let t = dropWhile is_space (rev (dropWhile is_space (rev s)));
          negative = (t \<noteq> [] \<and> hd t = CHR ''-'');
          ds = (if t \<noteq> [] \<and> (hd t = CHR ''-'' \<or> hd t = CHR ''+'') then tl t else t)
      in case (if ds = [] then None else decimal 0 ds) of
           None \<Rightarrow> Inl (Error (''invalid input syntax for type integer: '' @ quoted s))
         | Some n \<Rightarrow>
             if int4 (if negative then - n else n) then Inr (if negative then - n else n)
             else Inl (Error (''value '' @ quoted s @ '' is out of range for type integer'')))"

text \<open>
  The engine's conversion of a value to a string column and to an integer column. A
  number or a boolean reaches the engine as its text. Arrays and objects do not reach a
  string column: validation refuses them before.
\<close>

fun as_string :: "string \<Rightarrow> json \<Rightarrow> error + string option" where
  "as_string f JNull = Inr None"
| "as_string f (JStr s) = map_sum id Some (varchar s)"
| "as_string f (JNum n) = map_sum id Some (varchar (show_int n))"
| "as_string f (JBool b) = Inr (Some (if b then ''true'' else ''false''))"
| "as_string f v = Inl (Error (''string violation: '' @ f @ '' cannot be an array or an object''))"

fun as_integer :: "string \<Rightarrow> json \<Rightarrow> error + int option" where
  "as_integer f JNull = Inr None"
| "as_integer f (JNum n) =
     (if int4 n then Inr (Some n)
      else Inl (Error (''value '' @ quoted (show_int n) @ '' is out of range for type integer'')))"
| "as_integer f (JStr s) = map_sum id Some (int4in s)"
| "as_integer f (JBool b) =
     Inl (Error (''invalid input syntax for type integer: ''
                  @ quoted (if b then ''true'' else ''false'')))"
| "as_integer f v = Inl (Error ''invalid input syntax for type integer'')"

text \<open>
  A timestamp column written by a client: a number is taken as milliseconds since
  1970. A date given as text, or one before 1970, is not interpreted: it is refused.
\<close>

fun as_timestamp :: "string \<Rightarrow> json \<Rightarrow> error + nat option" where
  "as_timestamp f JNull = Inr None"
| "as_timestamp f (JNum n) =
     (if 0 \<le> n then Inr (Some (nat n))
      else Inl (Error ''invalid input syntax for type timestamp with time zone''))"
| "as_timestamp f v = Inl (Error ''invalid input syntax for type timestamp with time zone'')"

text \<open>\<open>NOT NULL\<close>, as the engine enforces it.\<close>

fun not_null :: "string \<Rightarrow> error + 'a option \<Rightarrow> error + 'a" where
  "not_null f (Inl e) = Inl e"
| "not_null f (Inr None) =
     Inl (Error (''null value in column '' @ quoted f @ '' violates not-null constraint''))"
| "not_null f (Inr (Some v)) = Inr v"

definition and_then :: "error + 'a \<Rightarrow> ('a \<Rightarrow> error + 'b) \<Rightarrow> error + 'b" where
  "and_then r k = (case r of Inl e \<Rightarrow> Inl e | Inr v \<Rightarrow> k v)"

text \<open>
  Validation, before any statement is sent: \<open>null\<close> where \<open>allowNull\<close> is false, and
  an array or an object for a string column. All violations are reported in one error,
  whose message joins theirs.
\<close>

fun violation :: "string \<Rightarrow> bool \<Rightarrow> json \<Rightarrow> string list" where
  "violation f required JNull =
     (if required then [''notNull Violation: customer.'' @ f @ '' cannot be null''] else [])"
| "violation f required (JArr xs) =
     [''string violation: '' @ f @ '' cannot be an array or an object'']"
| "violation f required (JObj kvs) =
     [''string violation: '' @ f @ '' cannot be an array or an object'']"
| "violation f required v = []"

fun joined :: "string list \<Rightarrow> string" where
  "joined [] = []"
| "joined [m] = m"
| "joined (m # ms) = m @ '','' @ [CHR 0x0A] @ joined ms"

text \<open>On insert an absent value counts as \<open>null\<close>; on update it is not validated.\<close>

definition insert_violations :: "(string \<rightharpoonup> json) \<Rightarrow> string list" where
  "insert_violations vals =
     violation ''firstname'' True (case vals ''firstname'' of None \<Rightarrow> JNull | Some j \<Rightarrow> j)
     @ violation ''lastname'' True (case vals ''lastname'' of None \<Rightarrow> JNull | Some j \<Rightarrow> j)
     @ violation ''address'' False (case vals ''address'' of None \<Rightarrow> JNull | Some j \<Rightarrow> j)"

definition update_violations :: "(string \<rightharpoonup> json) \<Rightarrow> string list" where
  "update_violations vals =
     (case vals ''firstname'' of None \<Rightarrow> [] | Some j \<Rightarrow> violation ''firstname'' True j)
     @ (case vals ''lastname'' of None \<Rightarrow> [] | Some j \<Rightarrow> violation ''lastname'' True j)
     @ (case vals ''address'' of None \<Rightarrow> [] | Some j \<Rightarrow> violation ''address'' False j)"

text \<open>A column of a new row: an absent value is stored as \<open>NULL\<close>.\<close>

definition cell :: "(json \<Rightarrow> error + 'a option) \<Rightarrow> json option \<Rightarrow> error + 'a option" where
  "cell conv v = (case v of None \<Rightarrow> Inr None | Some j \<Rightarrow> conv j)"

definition build :: "(string \<rightharpoonup> json) \<Rightarrow> int \<Rightarrow> nat \<Rightarrow> error + customer" where
  "build vals i t =
     and_then (not_null ''firstname'' (cell (as_string ''firstname'') (vals ''firstname''))) (\<lambda>f.
     and_then (not_null ''lastname'' (cell (as_string ''lastname'') (vals ''lastname''))) (\<lambda>l.
     and_then (cell (as_integer ''age'') (vals ''age'')) (\<lambda>a.
     and_then (cell (as_string ''address'') (vals ''address'')) (\<lambda>ad.
       Inr \<lparr>id_col = i, firstname = f, lastname = l, age = a, address = ad,
            createdAt = t, updatedAt = t\<rparr>))))"

text \<open>
  Modelled from the spec: \<open>Customer.create(values)\<close> of the data-access layer, which
  resolves to the row inserted. The id is the next value of the sequence; the sequence
  ends at the largest 32-bit integer, and a value it hands out is used up even when the
  primary key refuses the row because a stored row has that id already.
\<close>

definition Customer_create ::
  "driver \<Rightarrow> (string \<rightharpoonup> json) \<Rightarrow> table \<Rightarrow> table \<times> (error + customer)" where
  "Customer_create drv vals tbl =
     (if insert_violations vals \<noteq> [] then (tbl, Inl (Error (joined (insert_violations vals))))
      else
        (case fault drv of
           Some m \<Rightarrow> (tbl, Inl (Error m))
         | None \<Rightarrow>
             (case build vals (next_id tbl) (now drv) of
                Inl e \<Rightarrow> (tbl, Inl e)
              | Inr c \<Rightarrow>
                  if \<not> int4 (next_id tbl) then
                    (tbl, Inl (Error ''nextval: reached maximum value of sequence''))
                  else if next_id tbl \<in> set (map id_col (rows tbl)) then
                    (tbl\<lparr>next_id := next_id tbl + 1\<rparr>, Inl (Error ''Validation error''))
                  else
                    (tbl\<lparr>rows := rows tbl @ [c], next_id := next_id tbl + 1\<rparr>, Inr c))))"

text \<open>
  Modelled from the spec: \<open>Customer.findAll()\<close> of the data-access layer, which
  resolves to all rows.
\<close>

definition Customer_findAll :: "driver \<Rightarrow> table \<Rightarrow> error + customer list" where
  "Customer_findAll drv tbl =
     (case fault drv of Some m \<Rightarrow> Inl (Error m) | None \<Rightarrow> Inr (rows tbl))"

text \<open>
  The id of a condition \<open>{ id: i }\<close>, which the engine compares with the 32-bit
  primary key.
\<close>

definition where_id :: "int \<Rightarrow> error + int" where
  "where_id i =
     (if int4 i then Inr i
      else Inl (Error (''value '' @ quoted (show_int i) @ '' is out of range for type integer'')))"

text \<open>
  Modelled from the spec: \<open>Customer.findByPk(id)\<close> of the data-access layer, which
  resolves to the row with that id, or to \<open>null\<close>.
\<close>

definition Customer_findByPk :: "driver \<Rightarrow> int \<Rightarrow> table \<Rightarrow> error + customer option" where
  "Customer_findByPk drv i tbl =
     (case fault drv of
        Some m \<Rightarrow> Inl (Error m)
      | None \<Rightarrow> and_then (where_id i) (\<lambda>i. Inr (find (\<lambda>c. id_col c = i) (rows tbl))))"

text \<open>
  The columns an update replaces: for each column, \<open>None\<close> when the values do not
  name it, and the new content otherwise. Any column of the table can be named, the
  primary key and \<open>createdAt\<close> included; \<open>updatedAt\<close> is set by the layer whatever
  the values say.
\<close>

record changes =
  new_id :: "int option option"
  new_firstname :: "string option"
  new_lastname :: "string option"
  new_age :: "int option option"
  new_address :: "string option option"
  new_createdAt :: "nat option option"

definition names_column :: "(string \<rightharpoonup> json) \<Rightarrow> bool" where
  "names_column vals =
     list_ex (\<lambda>f. vals f \<noteq> None)
       [''id'', ''firstname'', ''lastname'', ''age'', ''address'', ''createdAt'']"

definition change :: "(json \<Rightarrow> error + 'a) \<Rightarrow> json option \<Rightarrow> error + 'a option" where
  "change conv v =
     (case v of None \<Rightarrow> Inr None | Some j \<Rightarrow> and_then (conv j) (\<lambda>x. Inr (Some x)))"

definition parse_changes :: "(string \<rightharpoonup> json) \<Rightarrow> error + changes" where
  "parse_changes vals =
     and_then (change (as_integer ''id'') (vals ''id'')) (\<lambda>i.
     and_then (change (\<lambda>j. not_null ''firstname'' (as_string ''firstname'' j)) (vals ''firstname'')) (\<lambda>f.
     and_then (change (\<lambda>j. not_null ''lastname'' (as_string ''lastname'' j)) (vals ''lastname'')) (\<lambda>l.
     and_then (change (as_integer ''age'') (vals ''age'')) (\<lambda>a.
     and_then (change (as_string ''address'') (vals ''address'')) (\<lambda>ad.
     and_then (change (as_timestamp ''createdAt'') (vals ''createdAt'')) (\<lambda>cr.
       Inr \<lparr>new_id = i, new_firstname = f, new_lastname = l, new_age = a, new_address = ad,
            new_createdAt = cr\<rparr>))))))"

text \<open>
  A row after the update. The two columns that cannot hold \<open>NULL\<close> and pass
  validation, the primary key and \<open>createdAt\<close>, are checked by the engine on each row
  it writes.
\<close>

definition apply_changes :: "changes \<Rightarrow> nat \<Rightarrow> customer \<Rightarrow> error + customer" where
  "apply_changes ch t c =
     and_then (case new_id ch of None \<Rightarrow> Inr (id_col c) | Some i \<Rightarrow> not_null ''id'' (Inr i)) (\<lambda>i.
     and_then (case new_createdAt ch of None \<Rightarrow> Inr (createdAt c)
               | Some cr \<Rightarrow> not_null ''createdAt'' (Inr cr)) (\<lambda>cr.
       Inr (c\<lparr>id_col := i,
              firstname := (case new_firstname ch of None \<Rightarrow> firstname c | Some f \<Rightarrow> f),
              lastname := (case new_lastname ch of None \<Rightarrow> lastname c | Some l \<Rightarrow> l),
              age := (case new_age ch of None \<Rightarrow> age c | Some a \<Rightarrow> a),
              address := (case new_address ch of None \<Rightarrow> address c | Some ad \<Rightarrow> ad),
              createdAt := cr,
              updatedAt := t\<rparr>)))"

fun write_rows :: "changes \<Rightarrow> nat \<Rightarrow> int \<Rightarrow> customer list \<Rightarrow> error + customer list" where
  "write_rows ch t i [] = Inr []"
| "write_rows ch t i (c # cs) =
     and_then (if id_col c = i then apply_changes ch t c else Inr c) (\<lambda>c'.
     and_then (write_rows ch t i cs) (\<lambda>cs'. Inr (c' # cs')))"

text \<open>
  Modelled from the spec: \<open>Customer.update(values, { where: { id: id } })\<close> of the
  data-access layer, which resolves to an array whose first element is the number of
  rows the statement matched; here that number. When the values name no column but
  \<open>updatedAt\<close>, no statement is sent and the number is 0. The primary key refuses a
  rewritten id that a row has already.
\<close>

definition Customer_update ::
  "driver \<Rightarrow> (string \<rightharpoonup> json) \<Rightarrow> int \<Rightarrow> table \<Rightarrow> table \<times> (error + nat)" where
  "Customer_update drv vals i tbl =
     (if update_violations vals \<noteq> [] then (tbl, Inl (Error (joined (update_violations vals))))
      else if \<not> names_column vals then (tbl, Inr 0)
      else
        (case fault drv of
           Some m \<Rightarrow> (tbl, Inl (Error m))
         | None \<Rightarrow>
             (case and_then (where_id i) (\<lambda>i.
                   and_then (parse_changes vals) (\<lambda>ch. write_rows ch (now drv) i (rows tbl))) of
                Inl e \<Rightarrow> (tbl, Inl e)
              | Inr rows' \<Rightarrow>
                  if vals ''id'' \<noteq> None \<and> list_ex (\<lambda>c. id_col c = i) (rows tbl)
                     \<and> \<not> distinct (map id_col rows') then
                    (tbl, Inl (Error ''Validation error''))
                  else
                    (tbl\<lparr>rows := rows'\<rparr>,
                     Inr (length (filter (\<lambda>c. id_col c = i) (rows tbl)))))))"

text \<open>
  Modelled from the spec: \<open>Customer.destroy({ where: ... })\<close> of the data-access
  layer, which resolves to the number of rows deleted. The condition is \<open>Some i\<close> for
  \<open>{ id: i }\<close> and \<open>None\<close> for the empty condition \<open>{}\<close>, which every row
  satisfies.
\<close>

definition Customer_destroy :: "driver \<Rightarrow> int option \<Rightarrow> table \<Rightarrow> table \<times> (error + nat)" where
  "Customer_destroy drv cond tbl =
     (case fault drv of
        Some m \<Rightarrow> (tbl, Inl (Error m))
      | None \<Rightarrow>
          (case cond of
             None \<Rightarrow> (tbl\<lparr>rows := []\<rparr>, Inr (length (rows tbl)))
           | Some i \<Rightarrow>
               (case where_id i of
                  Inl e \<Rightarrow> (tbl, Inl e)
                | Inr i \<Rightarrow>
                    (tbl\<lparr>rows := filter (\<lambda>c. id_col c \<noteq> i) (rows tbl)\<rparr>,
                     Inr (length (filter (\<lambda>c. id_col c = i) (rows tbl)))))))"

section \<open>The request handlers (customer.controller.js)\<close>

text \<open>
  A request carries the \<open>:id\<close> of its path and its parsed body. The path parameter
  is taken as the integer it denotes; a path whose id is not a number is outside the
  model.
\<close>

record request =
  params_id :: int
  body :: "string \<rightharpoonup> json"

text \<open>
  What a handler does: the table it leaves, the status and the body it sends, and the
  lines it writes to the console.
\<close>

record result =
  store :: table
  status :: nat
  sent :: json
  console :: "string list"

definition customer_json :: "customer \<Rightarrow> json" where
  "customer_json c =
     JObj [(''id'', JNum (id_col c)),
           (''firstname'', JStr (firstname c)),
           (''lastname'', JStr (lastname c)),
           (''age'', (case age c of None \<Rightarrow> JNull | Some a \<Rightarrow> JNum a)),
           (''address'', (case address c of None \<Rightarrow> JNull | Some ad \<Rightarrow> JStr ad)),
           (''createdAt'', JNum (int (createdAt c))),
           (''updatedAt'', JNum (int (updatedAt c)))]"

text \<open>\<open>{ message: m }\<close>.\<close>

definition message :: "string \<Rightarrow> json" where
  "message m = JObj [(''message'', JStr m)]"

text \<open>\<open>res.status(code).send(j)\<close>; \<open>res.send(j)\<close> is the same with status 200.\<close>

definition respond :: "table \<Rightarrow> nat \<Rightarrow> json \<Rightarrow> result" where
  "respond tbl code j = \<lparr>store = tbl, status = code, sent = j, console = []\<rparr>"

text \<open>\<open>error.message || fallback\<close>.\<close>

fun message_or :: "error \<Rightarrow> string \<Rightarrow> string" where
  "message_or (Error m) fallback = (if m = [] then fallback else m)"

definition create :: "driver \<Rightarrow> request \<Rightarrow> table \<Rightarrow> result" where
  "create drv req tbl =
     (if falsy (body req ''firstname'') \<or> falsy (body req ''lastname'') then
        respond tbl 400 (message ''Firstname and Lastname are required!'')
      else
        (case Customer_create drv
                (body req |` {''firstname'', ''lastname'', ''age'', ''address''}) tbl of
           (tbl', Inr customer) \<Rightarrow> respond tbl' 201 (customer_json customer)
         | (tbl', Inl error) \<Rightarrow>
             respond tbl' 500 (message (message_or error ''Error creating customer''))))"

definition findAll :: "driver \<Rightarrow> request \<Rightarrow> table \<Rightarrow> result" where
  "findAll drv req tbl =
     (case Customer_findAll drv tbl of
        Inr customers \<Rightarrow> respond tbl 200 (JArr (map customer_json customers))
      | Inl error \<Rightarrow>
          respond tbl 500 (message (message_or error ''Error retrieving customers'')))"

definition findOne :: "driver \<Rightarrow> request \<Rightarrow> table \<Rightarrow> result" where
  "findOne drv req tbl =
     (case Customer_findByPk drv (params_id req) tbl of
        Inr None \<Rightarrow>
          respond tbl 404
            (message (''Customer with id='' @ show_int (params_id req) @ '' not found''))
      | Inr (Some customer) \<Rightarrow> respond tbl 200 (customer_json customer)
      | Inl error \<Rightarrow>
          respond tbl 500
            (message (''Error retrieving customer with id='' @ show_int (params_id req))))"

definition update :: "driver \<Rightarrow> request \<Rightarrow> table \<Rightarrow> result" where
  "update drv req tbl =
     (case Customer_update drv (body req) (params_id req) tbl of
        (tbl', Inr updated) \<Rightarrow>
          (if updated = 1 then respond tbl' 200 (message ''Customer updated successfully'')
           else
             respond tbl' 404
               (message (''Cannot update customer with id='' @ show_int (params_id req))))
      | (tbl', Inl error) \<Rightarrow>
          respond tbl' 500
            (message (''Error updating customer with id='' @ show_int (params_id req))))"

definition delete :: "driver \<Rightarrow> request \<Rightarrow> table \<Rightarrow> result" where
  "delete drv req tbl =
     (case Customer_destroy drv (Some (params_id req)) tbl of
        (tbl', Inr deleted) \<Rightarrow>
          (if deleted = 1 then respond tbl' 200 (message ''Customer deleted successfully'')
           else
             respond tbl' 404
               (message (''Cannot delete customer with id='' @ show_int (params_id req))))
      | (tbl', Inl error) \<Rightarrow>
          respond tbl' 500
            (message (''Error deleting customer with id='' @ show_int (params_id req))))"

definition deleteAll :: "driver \<Rightarrow> request \<Rightarrow> table \<Rightarrow> result" where
  "deleteAll drv req tbl =
     (case Customer_destroy drv None tbl of
        (tbl', Inr deleted) \<Rightarrow>
          respond tbl' 200
            (message (show_int (int deleted) @ '' customers deleted successfully''))
      | (tbl', Inl error) \<Rightarrow>
          respond tbl' 500 (message (message_or error ''Error deleting all customers'')))"

text \<open>The health check of server.js: \<open>res.json({ message: ..., status: 'ok' })\<close>.\<close>

definition health_check :: "driver \<Rightarrow> request \<Rightarrow> table \<Rightarrow> result" where
  "health_check drv req tbl =
     respond tbl 200
       (JObj [(''message'', JStr ''Customer Management API''), (''status'', JStr ''ok'')])"

section \<open>The startup sequence (server.js)\<close>

text \<open>
  The process runs the module from top to bottom and then serves its event loop. The
  model keeps the registration of the health check, the retry counter and the
  connection flag, the two timers, the promise chain of \<open>connectDB\<close> and the exit of
  the process; the error-handling middleware, the listening socket and the
  \<open>SIGTERM\<close> handler are left out. Time is in milliseconds since the start of the
  process.
\<close>

text \<open>How a promise settles; a rejection carries the message of its error.\<close>

datatype settled = Resolved | Rejected string

text \<open>
  What the database does on one connection attempt: how long \<open>authenticate()\<close> takes
  and how it settles, and the same for \<open>sync({ force: false })\<close>, which is only
  started once the authentication has resolved. A database gives this for each attempt,
  by the number of the attempt.
\<close>

record attempt =
  auth_ms :: nat
  auth :: settled
  sync_ms :: nat
  sync :: settled

type_synonym database = "nat \<Rightarrow> attempt"

text \<open>
  The callbacks that wait in the event loop: \<open>connectDB\<close> set by \<open>setTimeout\<close>, the
  reactions to the two promises, and the callback of the one-second timer.
\<close>

datatype task = ConnectDB | AuthSettled settled | SyncSettled settled | RegisterRoutes

text \<open>
  What the process has done so far: the routes it registered and the lines it wrote to
  the console.
\<close>

datatype event =
    HealthRegistered
  | Attempting nat
  | Authenticated
  | Synced
  | DatabaseError string
  | Retrying nat
  | MaxRetriesReached
  | RoutesRegistered

record server =
  health :: bool
  routes :: bool
  dbConnected :: bool
  retries :: nat
  clock :: nat
  queue :: "(nat \<times> task) list"
  exited :: "int option"
  trace :: "(nat \<times> event) list"

definition maxRetries :: nat where
  "maxRetries = 10"

definition start :: server where
  "start = \<lparr>health = False, routes = False, dbConnected = False, retries = 0, clock = 0,
            queue = [], exited = None, trace = []\<rparr>"

text \<open>
  A callback due at time \<open>t\<close> joins the queue behind the callbacks due at \<open>t\<close> or
  earlier: the event loop runs callbacks by due time, and those due together in the
  order they were set.
\<close>

fun enqueue :: "nat \<Rightarrow> task \<Rightarrow> (nat \<times> task) list \<Rightarrow> (nat \<times> task) list" where
  "enqueue t k [] = [(t, k)]"
| "enqueue t k ((t', k') # q) =
     (if t < t' then (t, k) # (t', k') # q else (t', k') # enqueue t k q)"

definition say :: "event \<Rightarrow> server \<Rightarrow> server" where
  "say e s = s\<lparr>trace := trace s @ [(clock s, e)]\<rparr>"

text \<open>\<open>setTimeout(k, delay)\<close>, and a promise that settles after \<open>delay\<close>.\<close>

definition after :: "nat \<Rightarrow> task \<Rightarrow> server \<Rightarrow> server" where
  "after delay k s = s\<lparr>queue := enqueue (clock s + delay) k (queue s)\<rparr>"

text \<open>\<open>app.get('/', ...)\<close>.\<close>

definition app_get_health :: "server \<Rightarrow> server" where
  "app_get_health s = say HealthRegistered (s\<lparr>health := True\<rparr>)"

text \<open>\<open>connectDB()\<close> up to the call of \<open>authenticate()\<close>.\<close>

definition connectDB :: "database \<Rightarrow> server \<Rightarrow> server" where
  "connectDB db s =
     (let s1 = s\<lparr>retries := retries s + 1\<rparr>;
          s2 = say (Attempting (retries s1)) s1
      in after (auth_ms (db (retries s2))) (AuthSettled (auth (db (retries s2)))) s2)"

text \<open>The first \<open>then\<close>: the authentication has resolved, \<open>sync\<close> is started.\<close>

definition on_authenticated :: "database \<Rightarrow> server \<Rightarrow> server" where
  "on_authenticated db s =
     (let s1 = say Authenticated s
      in after (sync_ms (db (retries s1))) (SyncSettled (sync (db (retries s1)))) s1)"

text \<open>The second \<open>then\<close>.\<close>

definition on_synced :: "server \<Rightarrow> server" where
  "on_synced s = (say Synced s)\<lparr>dbConnected := True\<rparr>"

text \<open>The \<open>catch\<close>, reached when either promise rejects.\<close>

definition on_error :: "string \<Rightarrow> server \<Rightarrow> server" where
  "on_error m s =
     (let s1 = say (DatabaseError m) s
      in if retries s1 < maxRetries then
           (let delay = min (5000 * retries s1) 30000
            in after delay ConnectDB (say (Retrying delay) s1))
         else (say MaxRetriesReached s1)\<lparr>exited := Some 1\<rparr>)"

text \<open>The callback of \<open>setTimeout(..., 1000)\<close>: the customer routes are registered.\<close>

definition register_routes :: "server \<Rightarrow> server" where
  "register_routes s = say RoutesRegistered (s\<lparr>routes := True\<rparr>)"

text \<open>
  The module, top to bottom: the health check is registered, \<open>connectDB()\<close> is called,
  the one-second timer is set.
\<close>

definition main :: "database \<Rightarrow> server" where
  "main db = after 1000 RegisterRoutes (connectDB db (app_get_health start))"

fun run_task :: "database \<Rightarrow> task \<Rightarrow> server \<Rightarrow> server" where
  "run_task db ConnectDB s = connectDB db s"
| "run_task db (AuthSettled Resolved) s = on_authenticated db s"
| "run_task db (AuthSettled (Rejected m)) s = on_error m s"
| "run_task db (SyncSettled Resolved) s = on_synced s"
| "run_task db (SyncSettled (Rejected m)) s = on_error m s"
| "run_task db RegisterRoutes s = register_routes s"

text \<open>
  One turn of the event loop: the first callback of the queue runs at its due time.
  Nothing runs once the process has exited.
\<close>

definition step :: "database \<Rightarrow> server \<Rightarrow> server" where
  "step db s =
     (case queue s of
        [] \<Rightarrow> s
      | (t, k) # q \<Rightarrow>
          if exited s \<noteq> None then s else run_task db k (s\<lparr>clock := t, queue := q\<rparr>))"

text \<open>
  The event loop ends when the process has exited or nothing is left to run. That it
  ends is shown by a measure on the queue, which every turn decreases.
\<close>

definition halted :: "server \<Rightarrow> bool" where
  "halted s = (exited s \<noteq> None \<or> queue s = [])"

fun weight :: "nat \<Rightarrow> task \<Rightarrow> nat" where
  "weight r ConnectDB = 3 * (maxRetries - r) + 3"
| "weight r (AuthSettled x) = (if r < maxRetries then 3 * (maxRetries - r) + 5 else 2)"
| "weight r (SyncSettled x) = (if r < maxRetries then 3 * (maxRetries - r) + 4 else 1)"
| "weight r RegisterRoutes = 1"

definition potential :: "server \<Rightarrow> nat" where
  "potential s = sum_list (map (\<lambda>(t, k). weight (retries s) k) (queue s))"

function run :: "database \<Rightarrow> server \<Rightarrow> server" where
  "run db s = (if halted s then s else run db (step db s))"
  by pat_completeness auto
termination
proof (relation "measure (\<lambda>(db, s). potential s)")
  show "wf (measure (\<lambda>(db, s). potential s))"
    by simp
next
  fix db :: database and s :: server
  assume "\<not> halted s"
  then obtain t k q where q: "queue s = (t, k) # q" "exited s = None"
    by (cases "queue s") (auto simp: halted_def)
  have enq: "sum_list (map (\<lambda>(t, k). weight r k) (enqueue t' k' q'))
      = weight r k' + sum_list (map (\<lambda>(t, k). weight r k) q')" for r t' k' q'
    by (induction q') auto
  have "weight (Suc r) k' \<le> weight r k'" for r k'
    by (cases k') (auto simp: maxRetries_def)
  then have mono: "sum_list (map (\<lambda>(t, k). weight (Suc r) k) q')
      \<le> sum_list (map (\<lambda>(t, k). weight r k) q')" for r q'
    by (induction q') (auto simp: add_mono)
  have "potential (step db s) < potential s"
  proof (cases k)
    case ConnectDB
    have "weight (Suc (retries s)) (AuthSettled x) < weight (retries s) ConnectDB" for x
      by (auto simp: maxRetries_def)
    then show ?thesis
      using q ConnectDB mono [of "retries s" q]
      by (simp add: potential_def step_def connectDB_def after_def say_def Let_def enq
          add_less_le_mono)
  next
    case (AuthSettled x)
    then show ?thesis
      using q
      by (cases x)
        (auto simp: potential_def step_def on_authenticated_def on_error_def after_def
          say_def Let_def enq maxRetries_def)
  next
    case (SyncSettled x)
    then show ?thesis
      using q
      by (cases x)
        (auto simp: potential_def step_def on_synced_def on_error_def after_def say_def
          Let_def enq maxRetries_def)
  next
    case RegisterRoutes
    then show ?thesis
      using q by (simp add: potential_def step_def register_routes_def say_def)
  qed
  then show "((db, step db s), (db, s)) \<in> measure (\<lambda>(db, s). potential s)"
    by simp
qed

declare run.simps [simp del]

text \<open>
  A \<open>GET /\<close> that reaches the process: the health check answers it once it is
  registered, for as long as the process has not exited.
\<close>

definition get_root :: "server \<Rightarrow> driver \<Rightarrow> request \<Rightarrow> table \<Rightarrow> result option" where
  "get_root s drv req tbl =
     (if exited s = None \<and> health s then Some (health_check drv req tbl) else None)"

section \<open>Predicates used to state the properties\<close>

text \<open>
  A field that may be left out, sent as \<open>null\<close>, or sent with a value that fits its
  column: an integer of 32 bits, a text of at most 255 characters, none of them the
  zero character.
\<close>

fun optional_integer :: "json option \<Rightarrow> bool" where
  "optional_integer None = True"
| "optional_integer (Some JNull) = True"
| "optional_integer (Some (JNum n)) = int4 n"
| "optional_integer (Some v) = False"

fun optional_string :: "json option \<Rightarrow> bool" where
  "optional_string None = True"
| "optional_string (Some JNull) = True"
| "optional_string (Some (JStr s)) = (length s \<le> 255 \<and> CHR 0x00 \<notin> set s)"
| "optional_string (Some v) = False"

text \<open>
  The sequence is ahead of the table: every stored id is below its next value. Insert
  and delete keep it so; an update that rewrites an id need not.
\<close>

definition sequence_ahead :: "table \<Rightarrow> bool" where
  "sequence_ahead tbl = list_all (\<lambda>c. id_col c < next_id tbl) (rows tbl)"

text \<open>The invariant of section 3: no stored record has an empty first or last name.\<close>

definition names_present :: "table \<Rightarrow> bool" where
  "names_present tbl = list_all (\<lambda>c. firstname c \<noteq> [] \<and> lastname c \<noteq> []) (rows tbl)"

text \<open>An attempt succeeds when both promises resolve.\<close>

definition succeeds :: "attempt \<Rightarrow> bool" where
  "succeeds a = (auth a = Resolved \<and> sync a = Resolved)"

text \<open>The time an attempt takes until its promise chain settles.\<close>

definition took :: "attempt \<Rightarrow> nat" where
  "took a = (if auth a = Resolved then auth_ms a + sync_ms a else auth_ms a)"

text \<open>
  The claimed schedule: the first attempt begins at time 0, and attempt \<open>n + 1\<close>
  begins \<open>min (5000 * n) 30000\<close> milliseconds after attempt \<open>n\<close> has failed.
\<close>

fun scheduled :: "database \<Rightarrow> nat \<Rightarrow> nat" where
  "scheduled db 0 = 0"
| "scheduled db (Suc 0) = 0"
| "scheduled db (Suc (Suc n)) =
     scheduled db (Suc n) + took (db (Suc n)) + min (5000 * Suc n) 30000"

text \<open>
  The invariant of the event loop. The queue holds at most one callback of the
  connection chain, and the retry counter tells which: the settlement of
  \<open>authenticate\<close> or of \<open>sync\<close> for the attempt in progress, or the \<open>connectDB\<close> that
  begins the next attempt, due at its scheduled time; no such callback is left once the
  database is connected or the process has exited. Every earlier attempt has failed,
  and every attempt made so far began at its scheduled time.
\<close>

definition chain :: "server \<Rightarrow> (nat \<times> task) list" where
  "chain s = filter (\<lambda>(t, k). k \<noteq> RegisterRoutes) (queue s)"

definition phase :: "database \<Rightarrow> server \<Rightarrow> bool" where
  "phase db s =
     (let r = retries s; a = db r in
        (exited s = None \<and> \<not> dbConnected s
           \<and> chain s = [(scheduled db r + auth_ms a, AuthSettled (auth a))])
      \<or> (exited s = None \<and> \<not> dbConnected s \<and> auth a = Resolved
           \<and> chain s = [(scheduled db r + auth_ms a + sync_ms a, SyncSettled (sync a))])
      \<or> (exited s = None \<and> \<not> dbConnected s \<and> \<not> succeeds a \<and> r < maxRetries
           \<and> chain s = [(scheduled db (Suc r), ConnectDB)])
      \<or> (exited s = None \<and> dbConnected s \<and> succeeds a \<and> chain s = [])
      \<or> (exited s = Some 1 \<and> \<not> dbConnected s \<and> \<not> succeeds a \<and> r = maxRetries))"

definition inv :: "database \<Rightarrow> server \<Rightarrow> bool" where
  "inv db s =
     (1 \<le> retries s \<and> retries s \<le> maxRetries
      \<and> (\<forall>n. 1 \<le> n \<and> n < retries s \<longrightarrow> \<not> succeeds (db n))
      \<and> (\<forall>n. 1 \<le> n \<and> n \<le> retries s \<longrightarrow> (scheduled db n, Attempting n) \<in> set (trace s))
      \<and> phase db s)"

text \<open>
  The invariant of the one-second timer: the queue is ordered by due time, and the
  callback that registers the routes is in it, due at 1000, until it has run; it has
  run before the process exits.
\<close>

definition timer_inv :: "database \<Rightarrow> server \<Rightarrow> bool" where
  "timer_inv db s =
     (inv db s \<and> sorted (map fst (queue s))
      \<and> (routes s \<or> (1000, RegisterRoutes) \<in> set (queue s))
      \<and> (exited s = None \<or> routes s))"

text \<open>Sample inputs for the closed theorems.\<close>

abbreviation up :: driver where
  "up \<equiv> \<lparr>fault = None, now = 1700000000000\<rparr>"

abbreviation down :: driver where
  "down \<equiv> \<lparr>fault = Some ''connect ECONNREFUSED 127.0.0.1:5432'', now = 1700000000000\<rparr>"

abbreviation jane :: request where
  "jane \<equiv> \<lparr>params_id = 0,
            body = [''firstname'' \<mapsto> JStr ''Jane'', ''lastname'' \<mapsto> JStr ''Doe'',
                    ''age'' \<mapsto> JNum 30, ''address'' \<mapsto> JStr ''12 Main St'']\<rparr>"

abbreviation jane_row :: customer where
  "jane_row \<equiv> \<lparr>id_col = 1, firstname = ''Jane'', lastname = ''Doe'', age = Some 30,
                address = Some ''12 Main St'', createdAt = 1700000000000,
                updatedAt = 1700000000000\<rparr>"

abbreviation jane_table :: table where
  "jane_table \<equiv> \<lparr>rows = [jane_row], next_id = 2\<rparr>"

abbreviation refused :: attempt where
  "refused \<equiv> \<lparr>auth_ms = 100, auth = Rejected ''connect ECONNREFUSED 127.0.0.1:5432'',
               sync_ms = 0, sync = Resolved\<rparr>"

abbreviation accepted :: attempt where
  "accepted \<equiv> \<lparr>auth_ms = 100, auth = Resolved, sync_ms = 2000, sync = Resolved\<rparr>"

section \<open>Facts about the data-access layer\<close>

lemma cell_Some: "cell conv (Some j) = conv j"
  by (simp add: cell_def)

lemma varchar_short: "length s \<le> 255 \<Longrightarrow> CHR 0x00 \<notin> set s \<Longrightarrow> varchar s = Inr s"
  by (simp add: varchar_def)

lemma cell_integer:
  "optional_integer v \<Longrightarrow>
   cell (as_integer f) v = Inr (case v of Some (JNum a) \<Rightarrow> Some a | _ \<Rightarrow> None)"
  by (cases v rule: optional_integer.cases) (simp_all add: cell_def)

lemma cell_string:
  "optional_string v \<Longrightarrow>
   cell (as_string f) v = Inr (case v of Some (JStr s) \<Rightarrow> Some s | _ \<Rightarrow> None)"
  by (cases v rule: optional_string.cases) (simp_all add: cell_def varchar_short)

lemma build_sets:
  "build vals i t = Inr c \<Longrightarrow> id_col c = i \<and> createdAt c = t \<and> updatedAt c = t"
  by (auto simp: build_def and_then_def split: sum.splits)

lemma find_append_last:
  "list_all (\<lambda>c. \<not> P c) xs \<Longrightarrow> P x \<Longrightarrow> find P (xs @ [x]) = Some x"
  by (induction xs) auto

lemma count_one:
  "distinct (map f xs) \<Longrightarrow> x \<in> set xs \<Longrightarrow> length (filter (\<lambda>c. f c = f x) xs) = 1"
proof (induction xs)
  case Nil
  then show ?case by simp
next
  case (Cons y ys)
  show ?case
  proof (cases "f y = f x")
    case True
    with Cons.prems have "\<forall>c\<in>set ys. f c \<noteq> f x"
      by (metis distinct.simps(2) image_eqI list.simps(9) set_map)
    then have "filter (\<lambda>c. f c = f x) ys = []"
      by (simp add: filter_empty_conv)
    with True show ?thesis by simp
  next
    case False
    with Cons show ?thesis by auto
  qed
qed

lemma where_id_Inr: "where_id i = Inr j \<Longrightarrow> j = i"
  by (simp add: where_id_def split: if_splits)

lemma write_rows_unmatched:
  "\<forall>c\<in>set xs. id_col c \<noteq> i \<Longrightarrow> write_rows ch t i xs = Inr xs"
  by (induction xs) (simp_all add: and_then_def)

lemma no_column_no_violation: "\<not> names_column vals \<Longrightarrow> update_violations vals = []"
  by (simp add: names_column_def update_violations_def)

lemma Customer_update_error_keeps_table:
  "Customer_update drv vals i tbl = (tbl', Inl e) \<Longrightarrow> tbl' = tbl"
  by (auto simp: Customer_update_def split: sum.splits option.splits if_splits)

lemma Customer_update_names_nothing:
  "\<not> names_column vals \<Longrightarrow> Customer_update drv vals i tbl = (tbl, Inr 0)"
  by (simp add: Customer_update_def no_column_no_violation)

lemma Customer_update_unmatched:
  assumes "snd (Customer_update drv vals i tbl) = Inr n"
    and "\<forall>c\<in>set (rows tbl). id_col c \<noteq> i"
  shows "Customer_update drv vals i tbl = (tbl, Inr 0)"
proof (cases "names_column vals")
  case False
  then show ?thesis
    by (rule Customer_update_names_nothing)
next
  case True
  from assms(2) have f: "filter (\<lambda>c. id_col c = i) (rows tbl) = []"
    and l: "\<not> list_ex (\<lambda>c. id_col c = i) (rows tbl)"
    by (simp_all add: filter_empty_conv list_ex_iff)
  from assms(1) True show ?thesis
    by (auto simp: Customer_update_def and_then_def f l write_rows_unmatched [OF assms(2)]
        split: sum.splits option.splits if_splits dest!: where_id_Inr)
qed

lemma Customer_update_count:
  assumes "snd (Customer_update drv vals i tbl) = Inr n" and "names_column vals"
  shows "n = length (filter (\<lambda>c. id_col c = i) (rows tbl))"
  using assms
  by (auto simp: Customer_update_def and_then_def split: sum.splits option.splits if_splits
      dest!: where_id_Inr)

text \<open>
  Insert and delete keep the sequence ahead of the table, from the empty table on, and
  so does an update whose body does not name the id.
\<close>

lemma empty_table_sequence_ahead: "sequence_ahead empty_table"
  by (simp add: sequence_ahead_def empty_table_def)

lemma Customer_create_cases:
  assumes "Customer_create drv vals tbl = (tbl', r)"
  shows "(\<exists>e. r = Inl e \<and> rows tbl' = rows tbl
            \<and> (next_id tbl' = next_id tbl \<or> next_id tbl' = next_id tbl + 1))
       \<or> (\<exists>c. r = Inr c \<and> build vals (next_id tbl) (now drv) = Inr c
            \<and> fault drv = None \<and> int4 (next_id tbl)
            \<and> next_id tbl \<notin> id_col ` set (rows tbl)
            \<and> tbl' = tbl\<lparr>rows := rows tbl @ [c], next_id := next_id tbl + 1\<rparr>)"
proof -
  note a = assms [symmetric]
  show ?thesis
  proof (cases "insert_violations vals \<noteq> []")
    case True
    with a show ?thesis
      by (simp add: Customer_create_def)
  next
    case v: False
    show ?thesis
    proof (cases "fault drv")
      case (Some m)
      with a v show ?thesis
        by (simp add: Customer_create_def)
    next
      case None
      show ?thesis
      proof (cases "build vals (next_id tbl) (now drv)")
        case (Inl e)
        with a v None show ?thesis
          by (simp add: Customer_create_def)
      next
        case (Inr c)
        with a v None show ?thesis
          by (cases "int4 (next_id tbl)"; cases "next_id tbl \<in> id_col ` set (rows tbl)")
            (simp_all add: Customer_create_def)
      qed
    qed
  qed
qed

lemma list_all_less_Suc:
  "list_all (\<lambda>c. id_col c < n) xs \<Longrightarrow> list_all (\<lambda>c. id_col c < n + 1) xs"
  for n :: int
  by (induction xs) auto

lemma create_keeps_sequence_ahead:
  assumes "sequence_ahead tbl"
  shows "sequence_ahead (store (create drv req tbl))"
proof (cases "falsy (body req ''firstname'') \<or> falsy (body req ''lastname'')")
  case True
  with assms show ?thesis
    by (simp add: create_def respond_def)
next
  case False
  let ?vals = "body req |` {''firstname'', ''lastname'', ''age'', ''address''}"
  obtain tbl' r where p: "Customer_create drv ?vals tbl = (tbl', r)"
    by (cases "Customer_create drv ?vals tbl")
  from assms have a: "list_all (\<lambda>c. id_col c < next_id tbl) (rows tbl)"
    by (simp add: sequence_ahead_def)
  from Customer_create_cases [OF p] consider
      (failed) "rows tbl' = rows tbl"
        "next_id tbl' = next_id tbl \<or> next_id tbl' = next_id tbl + 1"
    | (inserted) c where "build ?vals (next_id tbl) (now drv) = Inr c"
        "tbl' = tbl\<lparr>rows := rows tbl @ [c], next_id := next_id tbl + 1\<rparr>"
    by blast
  then have "sequence_ahead tbl'"
  proof cases
    case failed
    with a list_all_less_Suc [OF a] show ?thesis
      by (auto simp: sequence_ahead_def)
  next
    case inserted
    then have "id_col c = next_id tbl"
      by (simp add: build_sets)
    with list_all_less_Suc [OF a] inserted(2) show ?thesis
      by (simp add: sequence_ahead_def)
  qed
  with False p show ?thesis
    by (cases r) (simp_all add: create_def respond_def)
qed

lemma Customer_destroy_rows:
  "set (rows (fst (Customer_destroy drv cond tbl))) \<subseteq> set (rows tbl)
   \<and> next_id (fst (Customer_destroy drv cond tbl)) = next_id tbl"
  by (auto simp: Customer_destroy_def split: option.splits sum.splits)

lemma delete_store:
  "store (delete drv req tbl) = fst (Customer_destroy drv (Some (params_id req)) tbl)"
  by (cases "Customer_destroy drv (Some (params_id req)) tbl")
    (auto simp: delete_def respond_def split: sum.splits)

lemma deleteAll_store:
  "store (deleteAll drv req tbl) = fst (Customer_destroy drv None tbl)"
  by (cases "Customer_destroy drv None tbl")
    (auto simp: deleteAll_def respond_def split: sum.splits)

lemma delete_keeps_sequence_ahead:
  "sequence_ahead tbl \<Longrightarrow> sequence_ahead (store (delete drv req tbl))"
  using Customer_destroy_rows [of drv "Some (params_id req)" tbl]
  by (auto simp: delete_store sequence_ahead_def list_all_iff)

lemma deleteAll_keeps_sequence_ahead:
  "sequence_ahead tbl \<Longrightarrow> sequence_ahead (store (deleteAll drv req tbl))"
  using Customer_destroy_rows [of drv None tbl]
  by (auto simp: deleteAll_store sequence_ahead_def list_all_iff)

lemma apply_changes_id:
  "new_id ch = None \<Longrightarrow> apply_changes ch t c = Inr c' \<Longrightarrow> id_col c' = id_col c"
  by (auto simp: apply_changes_def and_then_def split: sum.splits)

lemma write_rows_ids:
  "new_id ch = None \<Longrightarrow> write_rows ch t i xs = Inr ys \<Longrightarrow> map id_col ys = map id_col xs"
proof (induction xs arbitrary: ys)
  case Nil
  then show ?case by simp
next
  case (Cons x xs)
  from Cons.prems(2) obtain x' xs' where
    x': "(if id_col x = i then apply_changes ch t x else Inr x) = Inr x'"
    and xs': "write_rows ch t i xs = Inr xs'" and ys: "ys = x' # xs'"
    by (auto simp: and_then_def split: sum.splits)
  from x' Cons.prems(1) have "id_col x' = id_col x"
    by (auto split: if_splits dest: apply_changes_id)
  with Cons.IH [OF Cons.prems(1) xs'] ys show ?case
    by simp
qed

lemma parse_changes_no_id:
  assumes "vals ''id'' = None" and "parse_changes vals = Inr ch"
  shows "new_id ch = None"
proof -
  from assms(2) obtain i where "change (as_integer ''id'') (vals ''id'') = Inr i" "new_id ch = i"
    unfolding parse_changes_def and_then_def by (auto split: sum.splits)
  with assms(1) show ?thesis
    by (simp add: change_def)
qed

lemma Customer_update_cases:
  assumes "Customer_update drv vals i tbl = (tbl', r)"
  shows "tbl' = tbl
       \<or> (\<exists>ch ys. parse_changes vals = Inr ch
            \<and> write_rows ch (now drv) i (rows tbl) = Inr ys \<and> tbl' = tbl\<lparr>rows := ys\<rparr>
            \<and> (vals ''id'' = None \<or> (\<forall>c\<in>set (rows tbl). id_col c \<noteq> i)
                 \<or> distinct (map id_col ys)))"
proof -
  note a = assms [symmetric]
  show ?thesis
  proof (cases "update_violations vals = [] \<and> names_column vals \<and> fault drv = None
                 \<and> int4 i")
    case False
    then consider "update_violations vals \<noteq> []"
      | "update_violations vals = []" "\<not> names_column vals"
      | m where "update_violations vals = []" "names_column vals" "fault drv = Some m"
      | "update_violations vals = []" "names_column vals" "fault drv = None" "\<not> int4 i"
      by (cases "fault drv") auto
    then show ?thesis
    proof cases
      case 1
      with a show ?thesis by (simp add: Customer_update_def)
    next
      case 2
      with a show ?thesis by (simp add: Customer_update_def)
    next
      case 3
      with a show ?thesis by (simp add: Customer_update_def)
    next
      case 4
      with a show ?thesis by (simp add: Customer_update_def where_id_def and_then_def)
    qed
  next
    case f: True
    show ?thesis
    proof (cases "parse_changes vals")
      case (Inl e)
      with a f show ?thesis
        by (simp add: Customer_update_def where_id_def and_then_def)
    next
      case ch: (Inr ch)
      show ?thesis
      proof (cases "write_rows ch (now drv) i (rows tbl)")
        case (Inl e)
        with a f ch show ?thesis
          by (simp add: Customer_update_def where_id_def and_then_def)
      next
        case (Inr ys)
        with a f ch show ?thesis
          by (auto simp: Customer_update_def where_id_def and_then_def list_ex_iff
              split: if_splits)
      qed
    qed
  qed
qed

lemma update_store:
  "store (update drv req tbl) = fst (Customer_update drv (body req) (params_id req) tbl)"
  by (cases "Customer_update drv (body req) (params_id req) tbl")
    (auto simp: update_def respond_def split: sum.splits)

lemma update_keeps_sequence_ahead:
  assumes "sequence_ahead tbl" and "body req ''id'' = None"
  shows "sequence_ahead (store (update drv req tbl))"
proof -
  obtain tbl' r where p: "Customer_update drv (body req) (params_id req) tbl = (tbl', r)"
    by (cases "Customer_update drv (body req) (params_id req) tbl")
  from Customer_update_cases [OF p] consider
      (same) "tbl' = tbl"
    | (written) ch ys where "parse_changes (body req) = Inr ch"
        "write_rows ch (now drv) (params_id req) (rows tbl) = Inr ys" "tbl' = tbl\<lparr>rows := ys\<rparr>"
    by blast
  then have "sequence_ahead tbl'"
  proof cases
    case same
    with assms(1) show ?thesis
      by simp
  next
    case written
    from parse_changes_no_id [OF assms(2) written(1)] written(2)
    have "map id_col ys = map id_col (rows tbl)"
      by (rule write_rows_ids)
    then have "id_col ` set ys = id_col ` set (rows tbl)"
      by (metis set_map)
    moreover from assms(1) have "\<forall>x\<in>id_col ` set (rows tbl). x < next_id tbl"
      by (auto simp: sequence_ahead_def list_all_iff)
    ultimately have "\<forall>x\<in>id_col ` set ys. x < next_id tbl"
      by simp
    then have "list_all (\<lambda>c. id_col c < next_id tbl) ys"
      by (auto simp: list_all_iff)
    with written(3) show ?thesis
      by (simp add: sequence_ahead_def)
  qed
  with p show ?thesis
    by (simp add: update_store)
qed

lemma sequence_ahead_fresh:
  "sequence_ahead tbl \<Longrightarrow> next_id tbl \<notin> id_col ` set (rows tbl)"
  by (auto simp: sequence_ahead_def list_all_iff)

text \<open>
  The primary key: no handler leaves two rows with one id.
\<close>

lemma create_keeps_ids_distinct:
  assumes "distinct (map id_col (rows tbl))"
  shows "distinct (map id_col (rows (store (create drv req tbl))))"
proof (cases "falsy (body req ''firstname'') \<or> falsy (body req ''lastname'')")
  case True
  with assms show ?thesis
    by (simp add: create_def respond_def)
next
  case False
  let ?vals = "body req |` {''firstname'', ''lastname'', ''age'', ''address''}"
  obtain tbl' r where p: "Customer_create drv ?vals tbl = (tbl', r)"
    by (cases "Customer_create drv ?vals tbl")
  from Customer_create_cases [OF p] consider
      (failed) "rows tbl' = rows tbl"
    | (inserted) c where "build ?vals (next_id tbl) (now drv) = Inr c"
        "next_id tbl \<notin> id_col ` set (rows tbl)"
        "tbl' = tbl\<lparr>rows := rows tbl @ [c], next_id := next_id tbl + 1\<rparr>"
    by blast
  then have "distinct (map id_col (rows tbl'))"
  proof cases
    case failed
    with assms show ?thesis
      by simp
  next
    case inserted
    then have "id_col c = next_id tbl"
      by (simp add: build_sets)
    with assms inserted(2,3) show ?thesis
      by simp
  qed
  with False p show ?thesis
    by (cases r) (simp_all add: create_def respond_def)
qed

lemma update_keeps_ids_distinct:
  assumes "distinct (map id_col (rows tbl))"
  shows "distinct (map id_col (rows (store (update drv req tbl))))"
proof -
  obtain tbl' r where p: "Customer_update drv (body req) (params_id req) tbl = (tbl', r)"
    by (cases "Customer_update drv (body req) (params_id req) tbl")
  from Customer_update_cases [OF p] consider
      (same) "tbl' = tbl"
    | (written) ch ys where "parse_changes (body req) = Inr ch"
        "write_rows ch (now drv) (params_id req) (rows tbl) = Inr ys" "tbl' = tbl\<lparr>rows := ys\<rparr>"
        "body req ''id'' = None \<or> (\<forall>c\<in>set (rows tbl). id_col c \<noteq> params_id req)
           \<or> distinct (map id_col ys)"
    by blast
  then have "distinct (map id_col (rows tbl'))"
  proof cases
    case same
    with assms show ?thesis
      by simp
  next
    case written
    from written(4) have "distinct (map id_col ys)"
    proof (elim disjE)
      assume "body req ''id'' = None"
      from parse_changes_no_id [OF this written(1)] written(2)
      have "map id_col ys = map id_col (rows tbl)"
        by (rule write_rows_ids)
      with assms show ?thesis
        by simp
    next
      assume "\<forall>c\<in>set (rows tbl). id_col c \<noteq> params_id req"
      from write_rows_unmatched [OF this] written(2) have "ys = rows tbl"
        by simp
      with assms show ?thesis
        by simp
    qed
    with written(3) show ?thesis
      by simp
  qed
  with p show ?thesis
    by (simp add: update_store)
qed

lemma destroy_keeps_ids_distinct:
  assumes "distinct (map id_col (rows tbl))"
  shows "distinct (map id_col (rows (fst (Customer_destroy drv cond tbl))))"
  using assms
  by (auto simp: Customer_destroy_def distinct_map_filter split: option.splits sum.splits)

lemma delete_keeps_ids_distinct:
  "distinct (map id_col (rows tbl))
   \<Longrightarrow> distinct (map id_col (rows (store (delete drv req tbl))))"
  by (simp add: delete_store destroy_keeps_ids_distinct)

lemma deleteAll_keeps_ids_distinct:
  "distinct (map id_col (rows tbl))
   \<Longrightarrow> distinct (map id_col (rows (store (deleteAll drv req tbl))))"
  by (simp add: deleteAll_store destroy_keeps_ids_distinct)

text \<open>
  Create, delete and delete-all keep every stored first and last name non-empty, and
  the two read handlers leave the table as it is.
\<close>

lemma show_int_not_empty: "show_int n \<noteq> []"
proof -
  have "digits m \<noteq> []" for m
    by (subst digits.simps) simp
  then show ?thesis
    by (simp add: show_int_def)
qed

lemma varchar_not_empty: "s \<noteq> [] \<Longrightarrow> varchar s = Inr s' \<Longrightarrow> s' \<noteq> []"
  by (auto simp: varchar_def split: if_splits)

lemma as_string_not_empty:
  assumes "\<not> falsy (Some j)" and "as_string f j = Inr (Some s)"
  shows "s \<noteq> []"
proof (cases j)
  case (JStr x)
  with assms have "x \<noteq> []" "varchar x = Inr s"
    by (cases "varchar x"; simp)+
  then show ?thesis
    by (rule varchar_not_empty)
next
  case (JNum n)
  with assms have "varchar (show_int n) = Inr s"
    by (cases "varchar (show_int n)"; simp)
  with show_int_not_empty show ?thesis
    by (rule varchar_not_empty)
next
  case (JBool b)
  with assms show ?thesis
    by auto
qed (use assms in simp_all)

lemma build_names:
  assumes "build vals i t = Inr c"
    and "vals ''firstname'' = Some jf" and "vals ''lastname'' = Some jl"
  shows "as_string ''firstname'' jf = Inr (Some (firstname c))
       \<and> as_string ''lastname'' jl = Inr (Some (lastname c))"
proof -
  from assms obtain f l where
    f: "not_null ''firstname'' (as_string ''firstname'' jf) = Inr f"
    and l: "not_null ''lastname'' (as_string ''lastname'' jl) = Inr l"
    and c: "firstname c = f" "lastname c = l"
    by (auto simp: build_def and_then_def cell_def split: sum.splits)
  from f have "as_string ''firstname'' jf = Inr (Some f)"
    by (rule not_null.elims) simp_all
  moreover from l have "as_string ''lastname'' jl = Inr (Some l)"
    by (rule not_null.elims) simp_all
  ultimately show ?thesis
    using c by simp
qed

lemma create_keeps_names_present:
  assumes "names_present tbl"
  shows "names_present (store (create drv req tbl))"
proof (cases "falsy (body req ''firstname'') \<or> falsy (body req ''lastname'')")
  case True
  with assms show ?thesis
    by (simp add: create_def respond_def)
next
  case False
  then obtain jf jl where j: "body req ''firstname'' = Some jf" "body req ''lastname'' = Some jl"
    "\<not> falsy (Some jf)" "\<not> falsy (Some jl)"
    by (cases "body req ''firstname''"; cases "body req ''lastname''") auto
  let ?vals = "body req |` {''firstname'', ''lastname'', ''age'', ''address''}"
  have n: "firstname c \<noteq> [] \<and> lastname c \<noteq> []" if "build ?vals i t = Inr c" for i t c
  proof -
    from j have "?vals ''firstname'' = Some jf" "?vals ''lastname'' = Some jl"
      by simp_all
    from build_names [OF that this] j(3,4) show ?thesis
      by (auto dest: as_string_not_empty)
  qed
  show ?thesis
  proof (cases "Customer_create drv ?vals tbl")
    case (Pair tbl' r)
    show ?thesis
    proof (cases r)
      case (Inl e)
      with Pair have "rows tbl' = rows tbl"
        by (auto simp: Customer_create_def split: sum.splits option.splits if_splits)
      with assms False Pair Inl show ?thesis
        by (simp add: create_def respond_def names_present_def)
    next
      case (Inr c)
      with Pair have "rows tbl' = rows tbl @ [c]"
        "build ?vals (next_id tbl) (now drv) = Inr c"
        by (auto simp: Customer_create_def split: sum.splits option.splits if_splits)
      with assms False Pair Inr n show ?thesis
        by (simp add: create_def respond_def names_present_def)
    qed
  qed
qed

lemma delete_keeps_names_present:
  "names_present tbl \<Longrightarrow> names_present (store (delete drv req tbl))"
  by (auto simp: names_present_def delete_def respond_def Customer_destroy_def list_all_iff
      split: option.splits sum.splits)

lemma deleteAll_keeps_names_present:
  "names_present tbl \<Longrightarrow> names_present (store (deleteAll drv req tbl))"
  by (auto simp: names_present_def deleteAll_def respond_def Customer_destroy_def
      split: option.splits)

lemma find_keeps_table:
  "store (findAll drv req tbl) = tbl" "store (findOne drv req tbl) = tbl"
  by (auto simp: findAll_def findOne_def respond_def split: sum.splits option.splits)

text \<open>
  Validation lets a row pass whose names are strings and whose address is a string,
  \<open>null\<close> or absent.
\<close>

lemma insert_violations_none:
  assumes "vals ''firstname'' = Some (JStr f)" and "vals ''lastname'' = Some (JStr l)"
    and "optional_string (vals ''address'')"
  shows "insert_violations vals = []"
  using assms
  by (cases "vals ''address''" rule: optional_string.cases)
    (simp_all add: insert_violations_def)

text \<open>The definitions that evaluate the layer on a concrete request.\<close>

lemmas layer_defs =
  Customer_create_def Customer_findAll_def Customer_findByPk_def Customer_update_def
  Customer_destroy_def insert_violations_def update_violations_def names_column_def
  build_def cell_def parse_changes_def change_def apply_changes_def and_then_def
  where_id_def int4_def varchar_def

section \<open>Facts about the startup sequence\<close>

lemmas startup_defs =
  main_def start_def app_get_health_def connectDB_def on_authenticated_def on_synced_def
  on_error_def register_routes_def after_def say_def step_def halted_def maxRetries_def Let_def

lemma scheduled_Suc:
  "1 \<le> r \<Longrightarrow> scheduled db (Suc r) = scheduled db r + took (db r) + min (5000 * r) 30000"
  by (cases r) simp_all

lemma filter_enqueue_in:
  "P (t, k) \<Longrightarrow> filter P q = [] \<Longrightarrow> filter P (enqueue t k q) = [(t, k)]"
  by (induction q) (auto split: if_splits)

lemma filter_enqueue_out: "\<not> P (t, k) \<Longrightarrow> filter P (enqueue t k q) = filter P q"
  by (induction q) auto

lemma inv_main: "inv db (main db)"
proof -
  have "\<forall>n. Suc 0 \<le> n \<and> n \<le> Suc 0 \<longrightarrow> scheduled db n = 0"
    by (auto simp: le_Suc_eq)
  then show ?thesis
    by (simp add: inv_def phase_def chain_def main_def start_def app_get_health_def
        connectDB_def after_def say_def Let_def maxRetries_def filter_enqueue_out)
qed

lemma phase_ConnectDB:
  "phase db s \<Longrightarrow> exited s = None \<Longrightarrow> chain s = (t, ConnectDB) # rest \<Longrightarrow>
   rest = [] \<and> t = scheduled db (Suc (retries s)) \<and> \<not> succeeds (db (retries s))
   \<and> retries s < maxRetries \<and> \<not> dbConnected s"
  by (simp add: phase_def Let_def)

lemma phase_AuthSettled:
  "phase db s \<Longrightarrow> exited s = None \<Longrightarrow> chain s = (t, AuthSettled x) # rest \<Longrightarrow>
   rest = [] \<and> t = scheduled db (retries s) + auth_ms (db (retries s))
   \<and> x = auth (db (retries s)) \<and> \<not> dbConnected s"
  by (simp add: phase_def Let_def)

lemma phase_SyncSettled:
  "phase db s \<Longrightarrow> exited s = None \<Longrightarrow> chain s = (t, SyncSettled x) # rest \<Longrightarrow>
   rest = [] \<and> t = scheduled db (retries s) + auth_ms (db (retries s)) + sync_ms (db (retries s))
   \<and> x = sync (db (retries s)) \<and> auth (db (retries s)) = Resolved \<and> \<not> dbConnected s"
  by (simp add: phase_def Let_def)

lemma inv_step:
  assumes i: "inv db s" and h: "\<not> halted s"
  shows "inv db (step db s)"
proof -
  from h obtain t k q where q0: "queue s = (t, k) # q" and ex: "exited s = None"
    by (cases "queue s") (auto simp: halted_def)
  from q0 ex have st: "step db s = run_task db k (s\<lparr>clock := t, queue := q\<rparr>)"
    by (simp add: step_def)
  note q = q0
  from i have r: "1 \<le> retries s" "retries s \<le> maxRetries"
    and fl: "\<And>n. 1 \<le> n \<Longrightarrow> n < retries s \<Longrightarrow> \<not> succeeds (db n)"
    and tr: "\<And>n. 1 \<le> n \<Longrightarrow> n \<le> retries s \<Longrightarrow> (scheduled db n, Attempting n) \<in> set (trace s)"
    and ph: "phase db s"
    by (simp_all add: inv_def)
  let ?rest = "filter (\<lambda>(t, k). k \<noteq> RegisterRoutes) q"
  let ?r = "retries s"
  have keep: "inv db s'"
    if "retries s' = ?r" "set (trace s) \<subseteq> set (trace s')" "phase db s'" for s'
    using that r fl tr by (auto simp: inv_def)
  show ?thesis
  proof (cases k)
    case RegisterRoutes
    with q ex have "chain (step db s) = chain s" "retries (step db s) = ?r"
      "exited (step db s) = exited s" "dbConnected (step db s) = dbConnected s"
      "set (trace s) \<subseteq> set (trace (step db s))"
      by (auto simp: chain_def step_def register_routes_def say_def)
    with ph show ?thesis
      by (intro keep) (auto simp: phase_def Let_def)
  next
    case ConnectDB
    with q have c: "chain s = (t, ConnectDB) # ?rest"
      by (simp add: chain_def)
    from phase_ConnectDB [OF ph ex c]
    have p: "?rest = []" "t = scheduled db (Suc ?r)" "\<not> succeeds (db ?r)" "?r < maxRetries"
      "\<not> dbConnected s"
      by simp_all
    from q ex ConnectDB p(1,2) have s': "chain (step db s)
        = [(scheduled db (Suc ?r) + auth_ms (db (Suc ?r)), AuthSettled (auth (db (Suc ?r))))]"
      "retries (step db s) = Suc ?r" "exited (step db s) = exited s"
      "dbConnected (step db s) = dbConnected s"
      "trace (step db s) = trace s @ [(scheduled db (Suc ?r), Attempting (Suc ?r))]"
      by (simp_all add: chain_def step_def connectDB_def after_def say_def Let_def
          filter_enqueue_in)
    have 1: "\<not> succeeds (db n)" if "1 \<le> n" "n < Suc ?r" for n
      using that fl [of n] p(3) by (cases "n = ?r") auto
    have 2: "(scheduled db n, Attempting n) \<in> set (trace (step db s))"
      if "1 \<le> n" "n \<le> Suc ?r" for n
      using that tr [of n] by (cases "n = Suc ?r") (auto simp: s')
    from p ex r 1 2 show ?thesis
      by (simp add: inv_def phase_def Let_def s')
  next
    case (AuthSettled x)
    with q have c: "chain s = (t, AuthSettled x) # ?rest"
      by (simp add: chain_def)
    from phase_AuthSettled [OF ph ex c]
    have p: "?rest = []" "t = scheduled db ?r + auth_ms (db ?r)" "auth (db ?r) = x"
      "\<not> dbConnected s"
      by simp_all
    show ?thesis
    proof (cases x)
      case Resolved
      with q AuthSettled have q': "queue s = (t, AuthSettled Resolved) # q"
        by simp
      from q' ex p(1,2) have s': "chain (step db s)
          = [(scheduled db ?r + auth_ms (db ?r) + sync_ms (db ?r), SyncSettled (sync (db ?r)))]"
        "retries (step db s) = ?r" "exited (step db s) = exited s"
        "dbConnected (step db s) = dbConnected s"
        "set (trace s) \<subseteq> set (trace (step db s))"
        by (auto simp: chain_def step_def on_authenticated_def after_def say_def Let_def
            filter_enqueue_in)
      from p ex Resolved show ?thesis
        by (intro keep) (auto simp: phase_def Let_def s')
    next
      case (Rejected m)
      with q AuthSettled have q': "queue s = (t, AuthSettled (Rejected m)) # q"
        by simp
      from p(3) Rejected have ns: "\<not> succeeds (db ?r)"
        by (simp add: succeeds_def)
      from p(3) Rejected have tk: "took (db ?r) = auth_ms (db ?r)"
        by (simp add: took_def)
      show ?thesis
      proof (cases "?r < maxRetries")
        case True
        with q' ex p(1,2) r tk have s': "chain (step db s) = [(scheduled db (Suc ?r), ConnectDB)]"
          "retries (step db s) = ?r" "exited (step db s) = exited s"
          "dbConnected (step db s) = dbConnected s"
          "set (trace s) \<subseteq> set (trace (step db s))"
          by (auto simp: chain_def step_def on_error_def after_def say_def Let_def
              filter_enqueue_in scheduled_Suc)
        from ns p ex True show ?thesis
          by (intro keep) (auto simp: phase_def Let_def s')
      next
        case False
        with q' ex have s': "retries (step db s) = ?r" "exited (step db s) = Some 1"
          "dbConnected (step db s) = dbConnected s"
          "set (trace s) \<subseteq> set (trace (step db s))"
          by (auto simp: step_def on_error_def after_def say_def Let_def)
        from ns p r False show ?thesis
          by (intro keep) (auto simp: phase_def Let_def s')
      qed
    qed
  next
    case (SyncSettled x)
    with q have c: "chain s = (t, SyncSettled x) # ?rest"
      by (simp add: chain_def)
    from phase_SyncSettled [OF ph ex c]
    have p: "?rest = []" "t = scheduled db ?r + auth_ms (db ?r) + sync_ms (db ?r)"
      "sync (db ?r) = x" "auth (db ?r) = Resolved" "\<not> dbConnected s"
      by simp_all
    show ?thesis
    proof (cases x)
      case Resolved
      with q SyncSettled have q': "queue s = (t, SyncSettled Resolved) # q"
        by simp
      from q' ex p(1) have s': "chain (step db s) = []"
        "retries (step db s) = ?r" "exited (step db s) = exited s"
        "dbConnected (step db s) = True"
        "set (trace s) \<subseteq> set (trace (step db s))"
        by (auto simp: chain_def step_def on_synced_def say_def)
      from p Resolved have "succeeds (db ?r)"
        by (simp add: succeeds_def)
      with ex show ?thesis
        by (intro keep) (auto simp: phase_def Let_def s')
    next
      case (Rejected m)
      with q SyncSettled have q': "queue s = (t, SyncSettled (Rejected m)) # q"
        by simp
      from p(3) Rejected have ns: "\<not> succeeds (db ?r)"
        by (simp add: succeeds_def)
      from p(4) have tk: "took (db ?r) = auth_ms (db ?r) + sync_ms (db ?r)"
        by (simp add: took_def)
      show ?thesis
      proof (cases "?r < maxRetries")
        case True
        with q' ex p(1,2) r tk have s': "chain (step db s) = [(scheduled db (Suc ?r), ConnectDB)]"
          "retries (step db s) = ?r" "exited (step db s) = exited s"
          "dbConnected (step db s) = dbConnected s"
          "set (trace s) \<subseteq> set (trace (step db s))"
          by (auto simp: chain_def step_def on_error_def after_def say_def Let_def
              filter_enqueue_in scheduled_Suc)
        from ns p ex True show ?thesis
          by (intro keep) (auto simp: phase_def Let_def s')
      next
        case False
        with q' ex have s': "retries (step db s) = ?r" "exited (step db s) = Some 1"
          "dbConnected (step db s) = dbConnected s"
          "set (trace s) \<subseteq> set (trace (step db s))"
          by (auto simp: step_def on_error_def after_def say_def Let_def)
        from ns p r False show ?thesis
          by (intro keep) (auto simp: phase_def Let_def s')
      qed
    qed
  qed
qed

lemma run_halted: "halted (run db s)"
proof (induction db s rule: run.induct)
  case (1 db s)
  then show ?case
    by (subst run.simps) simp
qed

lemma inv_run: "inv db s \<Longrightarrow> inv db (run db s)"
proof (induction db s rule: run.induct)
  case (1 db s)
  then show ?case
    by (subst run.simps) (simp add: inv_step)
qed

lemma final_state:
  "inv db (run db (main db))" "halted (run db (main db))"
  by (simp_all add: inv_run inv_main run_halted)

lemma final_phase:
  "(exited (run db (main db)) = None \<and> dbConnected (run db (main db))
      \<and> succeeds (db (retries (run db (main db)))))
   \<or> (exited (run db (main db)) = Some 1 \<and> \<not> dbConnected (run db (main db))
      \<and> \<not> succeeds (db (retries (run db (main db))))
      \<and> retries (run db (main db)) = maxRetries)"
proof -
  let ?f = "run db (main db)"
  from final_state [of db] have p: "phase db ?f" and h: "halted ?f"
    by (simp_all add: inv_def)
  show ?thesis
  proof (cases "exited ?f = None")
    case True
    with h have "chain ?f = []"
      by (simp add: halted_def chain_def)
    with p True show ?thesis
      by (auto simp: phase_def Let_def)
  next
    case False
    with p show ?thesis
      by (auto simp: phase_def Let_def)
  qed
qed

lemma set_enqueue: "set (enqueue t k q) = insert (t, k) (set q)"
  by (induction q) (auto split: if_splits)

lemma sorted_enqueue: "sorted (map fst q) \<Longrightarrow> sorted (map fst (enqueue t k q))"
  by (induction q) (fastforce simp: set_enqueue)+

lemma scheduled_late: "2 \<le> n \<Longrightarrow> 5000 \<le> scheduled db n"
proof (induction db n rule: scheduled.induct)
  case (3 db n)
  have "5000 \<le> min (5000 * Suc n) 30000"
    by simp
  then show ?case
    by simp
qed simp_all

lemma timer_inv_main: "timer_inv db (main db)"
  by (simp add: timer_inv_def inv_main)
    (simp add: main_def start_def app_get_health_def connectDB_def after_def say_def Let_def
      set_enqueue sorted_enqueue)

lemma timer_inv_step:
  assumes i: "timer_inv db s" and h: "\<not> halted s"
  shows "timer_inv db (step db s)"
proof -
  from h obtain t k q where q: "queue s = (t, k) # q" and ex: "exited s = None"
    by (cases "queue s") (auto simp: halted_def)
  from i have iv: "inv db s" and so: "sorted (map fst (queue s))"
    and rr: "routes s \<or> (1000, RegisterRoutes) \<in> set (queue s)"
    by (simp_all add: timer_inv_def)
  from iv have ph: "phase db s" and r: "1 \<le> retries s" "retries s \<le> maxRetries"
    by (simp_all add: inv_def)
  from q ex have st: "step db s = run_task db k (s\<lparr>clock := t, queue := q\<rparr>)"
    by (simp add: step_def)
  from so q have sq: "sorted (map fst q)" and le: "\<forall>x\<in>set q. t \<le> fst x"
    by auto
  have 1: "sorted (map fst (queue (step db s)))"
    using sq unfolding st
    by (cases "(db, k, s)" rule: run_task.cases)
      (auto simp: connectDB_def on_authenticated_def on_synced_def on_error_def
        register_routes_def after_def say_def Let_def sorted_enqueue)
  have 2: "routes (step db s) \<or> (1000, RegisterRoutes) \<in> set (queue (step db s))"
    using rr q unfolding st
    by (cases "(db, k, s)" rule: run_task.cases)
      (auto simp: connectDB_def on_authenticated_def on_synced_def on_error_def
        register_routes_def after_def say_def Let_def set_enqueue)
  have 3: "exited (step db s) = None \<or> routes (step db s)"
  proof (cases "retries s < maxRetries \<or> routes s")
    case True
    with ex show ?thesis
      unfolding st
      by (cases "(db, k, s)" rule: run_task.cases)
        (auto simp: connectDB_def on_authenticated_def on_synced_def on_error_def
          register_routes_def after_def say_def Let_def)
  next
    case False
    with r have r10: "retries s = maxRetries" and nr: "\<not> routes s"
      by auto
    from nr rr q have "k = RegisterRoutes \<or> (1000, RegisterRoutes) \<in> set q"
      by auto
    then show ?thesis
    proof
      assume "k = RegisterRoutes"
      with ex show ?thesis
        unfolding st by (simp add: register_routes_def say_def)
    next
      assume "(1000, RegisterRoutes) \<in> set q"
      with le have t: "t \<le> 1000"
        by force
      have late: "5000 \<le> scheduled db (retries s)"
        using r10 by (intro scheduled_late) (simp add: maxRetries_def)
      let ?rest = "filter (\<lambda>(t, k). k \<noteq> RegisterRoutes) q"
      show ?thesis
      proof (cases k)
        case ConnectDB
        with ex show ?thesis
          unfolding st by (simp add: connectDB_def after_def say_def Let_def)
      next
        case (AuthSettled x)
        with q have "chain s = (t, AuthSettled x) # ?rest"
          by (simp add: chain_def)
        from phase_AuthSettled [OF ph ex this] late t have False
          by simp
        then show ?thesis ..
      next
        case (SyncSettled x)
        with q have "chain s = (t, SyncSettled x) # ?rest"
          by (simp add: chain_def)
        from phase_SyncSettled [OF ph ex this] late t have False
          by simp
        then show ?thesis ..
      next
        case RegisterRoutes
        with ex show ?thesis
          unfolding st by (simp add: register_routes_def say_def)
      qed
    qed
  qed
  from inv_step [OF iv h] 1 2 3 show ?thesis
    by (simp add: timer_inv_def)
qed

lemma timer_inv_run: "timer_inv db s \<Longrightarrow> timer_inv db (run db s)"
proof (induction db s rule: run.induct)
  case (1 db s)
  then show ?case
    by (subst run.simps) (simp add: timer_inv_step)
qed

lemma routes_always_registered: "routes (run db (main db))"
proof -
  let ?f = "run db (main db)"
  have "timer_inv db ?f"
    by (simp add: timer_inv_run timer_inv_main)
  moreover have "halted ?f"
    by (rule run_halted)
  ultimately show ?thesis
    by (auto simp: timer_inv_def halted_def)
qed

lemma run_task_health: "health (run_task db k s) = health s"
  by (cases "(db, k, s)" rule: run_task.cases)
    (simp_all add: connectDB_def on_authenticated_def on_synced_def on_error_def
      register_routes_def after_def say_def Let_def)

lemma run_task_trace: "\<exists>more. trace (run_task db k s) = trace s @ more"
  by (cases "(db, k, s)" rule: run_task.cases)
    (simp_all add: connectDB_def on_authenticated_def on_synced_def on_error_def
      register_routes_def after_def say_def Let_def)

lemma step_health: "health (step db s) = health s"
  by (simp add: step_def run_task_health split: list.splits)

lemma step_trace: "\<exists>more. trace (step db s) = trace s @ more"
proof (cases "queue s")
  case Nil
  then show ?thesis
    by (simp add: step_def)
next
  case (Cons x q)
  obtain t k where "x = (t, k)"
    by (cases x)
  with Cons run_task_trace [of db k "s\<lparr>clock := t, queue := q\<rparr>"] show ?thesis
    by (auto simp: step_def)
qed

lemma steps_health: "health ((step db ^^ n) s) = health s"
  by (induction n) (simp_all add: step_health)

lemma steps_trace: "\<exists>more. trace ((step db ^^ n) s) = trace s @ more"
proof (induction n)
  case 0
  then show ?case by simp
next
  case (Suc n)
  then obtain m1 where "trace ((step db ^^ n) s) = trace s @ m1"
    by blast
  moreover obtain m2 where "trace (step db ((step db ^^ n) s)) = trace ((step db ^^ n) s) @ m2"
    using step_trace by blast
  ultimately show ?case
    by simp
qed

lemma run_health: "health (run db s) = health s"
proof (induction db s rule: run.induct)
  case (1 db s)
  then show ?case
    by (subst run.simps) (simp add: step_health)
qed

text \<open>Iterated steps, taken from the first on.\<close>

lemma funpow_numeral_right: "(f ^^ numeral k) x = (f ^^ pred_numeral k) (f x)"
  by (simp add: numeral_eq_Suc funpow_swap1)

section \<open>Properties of the request handlers\<close>

text \<open>
  C5. A create request whose body has no \<open>firstname\<close> or an empty one, or no
  \<open>lastname\<close> or an empty one, is answered with status 400 and leaves the table
  as it was; a create request whose \<open>firstname\<close> and \<open>lastname\<close> are both non-empty
  strings is never answered with status 400.
\<close>

theorem create_requires_names:
  "(body req ''firstname'' = None \<or> body req ''firstname'' = Some (JStr []) \<or>
    body req ''lastname'' = None \<or> body req ''lastname'' = Some (JStr [])
      \<longrightarrow> status (create drv req tbl) = 400 \<and> store (create drv req tbl) = tbl)
   \<and> (body req ''firstname'' = Some (JStr f) \<and> f \<noteq> [] \<and>
       body req ''lastname'' = Some (JStr l) \<and> l \<noteq> []
      \<longrightarrow> status (create drv req tbl) \<noteq> 400)"
proof (intro conjI impI)
  assume "body req ''firstname'' = None \<or> body req ''firstname'' = Some (JStr []) \<or>
    body req ''lastname'' = None \<or> body req ''lastname'' = Some (JStr [])"
  then have g: "falsy (body req ''firstname'') \<or> falsy (body req ''lastname'')"
    by auto
  from g show "status (create drv req tbl) = 400"
    by (simp add: create_def respond_def)
  from g show "store (create drv req tbl) = tbl"
    by (simp add: create_def respond_def)
next
  assume "body req ''firstname'' = Some (JStr f) \<and> f \<noteq> [] \<and>
       body req ''lastname'' = Some (JStr l) \<and> l \<noteq> []"
  then have "\<not> (falsy (body req ''firstname'') \<or> falsy (body req ''lastname''))"
    by simp
  then show "status (create drv req tbl) \<noteq> 400"
    by (simp add: create_def respond_def split: prod.splits sum.splits)
qed

theorem create_requires_names_witness:
  "status (create up \<lparr>params_id = 0, body = [''lastname'' \<mapsto> JStr ''Doe'']\<rparr> jane_table) = 400
   \<and> store (create up \<lparr>params_id = 0, body = [''lastname'' \<mapsto> JStr ''Doe'']\<rparr> jane_table)
       = jane_table
   \<and> status (create up
        \<lparr>params_id = 0, body = [''firstname'' \<mapsto> JStr [], ''lastname'' \<mapsto> JStr ''Doe'']\<rparr>
        jane_table) = 400
   \<and> status (create up jane jane_table) \<noteq> 400"
  using create_requires_names
          [where req = "\<lparr>params_id = 0, body = [''lastname'' \<mapsto> JStr ''Doe'']\<rparr>"
             and drv = up and tbl = jane_table]
        create_requires_names
          [where req = "\<lparr>params_id = 0,
                         body = [''firstname'' \<mapsto> JStr [], ''lastname'' \<mapsto> JStr ''Doe'']\<rparr>"
             and drv = up and tbl = jane_table]
        create_requires_names
          [where req = jane and f = "''Jane''" and l = "''Doe''" and drv = up
             and tbl = jane_table]
  by simp

text \<open>
  C9. The create handler reads only the \<open>firstname\<close>, \<open>lastname\<close>, \<open>age\<close> and
  \<open>address\<close> fields of the body: two bodies that agree on these four fields get the
  same result, whatever else they carry (an \<open>id\<close>, a \<open>createdAt\<close>, an
  \<open>updatedAt\<close>). The id of a created record is the next value of the table's
  sequence and both its timestamps are the layer's clock reading.
\<close>

theorem create_reads_four_fields:
  "(body req ''firstname'' = body req' ''firstname'' \<and>
    body req ''lastname'' = body req' ''lastname'' \<and>
    body req ''age'' = body req' ''age'' \<and> body req ''address'' = body req' ''address''
      \<longrightarrow> create drv req tbl = create drv req' tbl)
   \<and> (status (create drv req tbl) = 201
      \<longrightarrow> (\<exists>c. sent (create drv req tbl) = customer_json c \<and> id_col c = next_id tbl \<and>
               createdAt c = now drv \<and> updatedAt c = now drv \<and>
               store (create drv req tbl)
                 = tbl\<lparr>rows := rows tbl @ [c], next_id := next_id tbl + 1\<rparr>))"
proof (intro conjI impI)
  assume a: "body req ''firstname'' = body req' ''firstname'' \<and>
    body req ''lastname'' = body req' ''lastname'' \<and>
    body req ''age'' = body req' ''age'' \<and> body req ''address'' = body req' ''address''"
  have "body req |` {''firstname'', ''lastname'', ''age'', ''address''}
      = body req' |` {''firstname'', ''lastname'', ''age'', ''address''}"
    using a by (auto simp: restrict_map_def fun_eq_iff)
  with a show "create drv req tbl = create drv req' tbl"
    by (simp add: create_def)
next
  assume s: "status (create drv req tbl) = 201"
  let ?vals = "body req |` {''firstname'', ''lastname'', ''age'', ''address''}"
  obtain tbl' r where p: "Customer_create drv ?vals tbl = (tbl', r)"
    by (cases "Customer_create drv ?vals tbl")
  from s have nf: "\<not> (falsy (body req ''firstname'') \<or> falsy (body req ''lastname''))"
    by (auto simp: create_def respond_def split: if_splits)
  with s p obtain c where r: "r = Inr c"
    by (cases r) (auto simp: create_def respond_def)
  from Customer_create_cases [OF p] r
  have b: "build ?vals (next_id tbl) (now drv) = Inr c"
    and t: "tbl' = tbl\<lparr>rows := rows tbl @ [c], next_id := next_id tbl + 1\<rparr>"
    by auto
  from nf p r have "create drv req tbl = respond tbl' 201 (customer_json c)"
    by (simp add: create_def)
  with build_sets [OF b] t
  show "\<exists>c. sent (create drv req tbl) = customer_json c \<and> id_col c = next_id tbl \<and>
               createdAt c = now drv \<and> updatedAt c = now drv \<and>
               store (create drv req tbl)
                 = tbl\<lparr>rows := rows tbl @ [c], next_id := next_id tbl + 1\<rparr>"
    by (intro exI [of _ c]) (simp add: respond_def)
qed

theorem create_reads_four_fields_witness:
  "create up
     \<lparr>params_id = 0,
      body = [''firstname'' \<mapsto> JStr ''Jane'', ''lastname'' \<mapsto> JStr ''Doe'',
              ''age'' \<mapsto> JNum 30, ''address'' \<mapsto> JStr ''12 Main St'',
              ''id'' \<mapsto> JNum 77, ''createdAt'' \<mapsto> JNum 5, ''updatedAt'' \<mapsto> JNum 6]\<rparr>
     empty_table
   = create up jane empty_table
   \<and> (\<exists>c. sent (create up jane empty_table) = customer_json c \<and> id_col c = 1 \<and>
          createdAt c = 1700000000000 \<and> updatedAt c = 1700000000000 \<and>
          store (create up jane empty_table) = \<lparr>rows = [c], next_id = 2\<rparr>)"
proof -
  have s: "status (create up jane empty_table) = 201"
    by (simp add: create_def respond_def layer_defs empty_table_def)
  show ?thesis
    using create_reads_four_fields
            [where req = "\<lparr>params_id = 0,
                body = [''firstname'' \<mapsto> JStr ''Jane'', ''lastname'' \<mapsto> JStr ''Doe'',
                        ''age'' \<mapsto> JNum 30, ''address'' \<mapsto> JStr ''12 Main St'',
                        ''id'' \<mapsto> JNum 77, ''createdAt'' \<mapsto> JNum 5,
                        ''updatedAt'' \<mapsto> JNum 6]\<rparr>"
               and req' = jane and drv = up and tbl = empty_table]
          create_reads_four_fields [where req = jane and drv = up and tbl = empty_table] s
    by (simp add: empty_table_def)
qed

text \<open>
  C4 (as amended). Whenever the data-access layer raises an error during a handler, the
  handler answers with status 500 and writes nothing to the console. Get-by-id, update
  and delete-one send a fixed message that names only the requested id, whatever the
  error says.
\<close>

theorem persistence_error_status_500:
  "(\<not> falsy (body req ''firstname'') \<and> \<not> falsy (body req ''lastname'') \<and>
    snd (Customer_create drv (body req |` {''firstname'', ''lastname'', ''age'', ''address''}) tbl)
      = Inl e
      \<longrightarrow> status (create drv req tbl) = 500 \<and> console (create drv req tbl) = [])
   \<and> (Customer_findAll drv tbl = Inl e
      \<longrightarrow> status (findAll drv req tbl) = 500 \<and> console (findAll drv req tbl) = [])
   \<and> (Customer_findByPk drv (params_id req) tbl = Inl e
      \<longrightarrow> status (findOne drv req tbl) = 500
        \<and> sent (findOne drv req tbl)
            = message (''Error retrieving customer with id='' @ show_int (params_id req))
        \<and> console (findOne drv req tbl) = [])
   \<and> (snd (Customer_update drv (body req) (params_id req) tbl) = Inl e
      \<longrightarrow> status (update drv req tbl) = 500
        \<and> sent (update drv req tbl)
            = message (''Error updating customer with id='' @ show_int (params_id req))
        \<and> console (update drv req tbl) = [])
   \<and> (snd (Customer_destroy drv (Some (params_id req)) tbl) = Inl e
      \<longrightarrow> status (delete drv req tbl) = 500
        \<and> sent (delete drv req tbl)
            = message (''Error deleting customer with id='' @ show_int (params_id req))
        \<and> console (delete drv req tbl) = [])
   \<and> (snd (Customer_destroy drv None tbl) = Inl e
      \<longrightarrow> status (deleteAll drv req tbl) = 500 \<and> console (deleteAll drv req tbl) = [])"
proof -
  have a: "status (create drv req tbl) = 500 \<and> console (create drv req tbl) = []"
    if "\<not> falsy (body req ''firstname'') \<and> \<not> falsy (body req ''lastname'') \<and>
      snd (Customer_create drv (body req |` {''firstname'', ''lastname'', ''age'', ''address''})
             tbl) = Inl e"
    using that by (auto simp: create_def respond_def split: prod.splits sum.splits)
  have b: "status (findAll drv req tbl) = 500 \<and> console (findAll drv req tbl) = []"
    if "Customer_findAll drv tbl = Inl e"
    using that by (simp add: findAll_def respond_def)
  have c: "status (findOne drv req tbl) = 500
      \<and> sent (findOne drv req tbl)
          = message (''Error retrieving customer with id='' @ show_int (params_id req))
      \<and> console (findOne drv req tbl) = []"
    if "Customer_findByPk drv (params_id req) tbl = Inl e"
    using that by (simp add: findOne_def respond_def)
  have d: "status (update drv req tbl) = 500
      \<and> sent (update drv req tbl)
          = message (''Error updating customer with id='' @ show_int (params_id req))
      \<and> console (update drv req tbl) = []"
    if "snd (Customer_update drv (body req) (params_id req) tbl) = Inl e"
    using that by (auto simp: update_def respond_def split: prod.splits sum.splits)
  have f: "status (delete drv req tbl) = 500
      \<and> sent (delete drv req tbl)
          = message (''Error deleting customer with id='' @ show_int (params_id req))
      \<and> console (delete drv req tbl) = []"
    if "snd (Customer_destroy drv (Some (params_id req)) tbl) = Inl e"
    using that by (auto simp: delete_def respond_def split: prod.splits sum.splits)
  have g: "status (deleteAll drv req tbl) = 500 \<and> console (deleteAll drv req tbl) = []"
    if "snd (Customer_destroy drv None tbl) = Inl e"
    using that by (auto simp: deleteAll_def respond_def split: prod.splits sum.splits)
  from a b c d f g show ?thesis
    by blast
qed

theorem persistence_error_status_500_witness:
  "status (create down jane jane_table) = 500 \<and> console (create down jane jane_table) = []
   \<and> status (findAll down jane jane_table) = 500 \<and> console (findAll down jane jane_table) = []
   \<and> status (findOne down (jane\<lparr>params_id := 1\<rparr>) jane_table) = 500
   \<and> sent (findOne down (jane\<lparr>params_id := 1\<rparr>) jane_table)
       = message ''Error retrieving customer with id=1''
   \<and> console (findOne down (jane\<lparr>params_id := 1\<rparr>) jane_table) = []
   \<and> status (update down (jane\<lparr>params_id := 1\<rparr>) jane_table) = 500
   \<and> sent (update down (jane\<lparr>params_id := 1\<rparr>) jane_table)
       = message ''Error updating customer with id=1''
   \<and> console (update down (jane\<lparr>params_id := 1\<rparr>) jane_table) = []
   \<and> status (delete down (jane\<lparr>params_id := 1\<rparr>) jane_table) = 500
   \<and> sent (delete down (jane\<lparr>params_id := 1\<rparr>) jane_table)
       = message ''Error deleting customer with id=1''
   \<and> console (delete down (jane\<lparr>params_id := 1\<rparr>) jane_table) = []
   \<and> status (deleteAll down jane jane_table) = 500
   \<and> console (deleteAll down jane jane_table) = []"
proof -
  have h: "snd (Customer_create down
                 (body jane |` {''firstname'', ''lastname'', ''age'', ''address''}) jane_table)
             = Inl (Error ''connect ECONNREFUSED 127.0.0.1:5432'')"
    "Customer_findAll down jane_table = Inl (Error ''connect ECONNREFUSED 127.0.0.1:5432'')"
    "Customer_findByPk down 1 jane_table = Inl (Error ''connect ECONNREFUSED 127.0.0.1:5432'')"
    "snd (Customer_update down (body jane) 1 jane_table)
       = Inl (Error ''connect ECONNREFUSED 127.0.0.1:5432'')"
    "snd (Customer_destroy down (Some 1) jane_table)
       = Inl (Error ''connect ECONNREFUSED 127.0.0.1:5432'')"
    "snd (Customer_destroy down None jane_table)
       = Inl (Error ''connect ECONNREFUSED 127.0.0.1:5432'')"
    by (simp_all add: layer_defs)
  show ?thesis
    using h
      persistence_error_status_500
        [where req = jane and drv = down and tbl = jane_table
           and e = "Error ''connect ECONNREFUSED 127.0.0.1:5432''"]
      persistence_error_status_500
        [where req = "jane\<lparr>params_id := 1\<rparr>" and drv = down and tbl = jane_table
           and e = "Error ''connect ECONNREFUSED 127.0.0.1:5432''"]
    by (simp add: show_int_def digits.simps digit_def)
qed

text \<open>
  C4 as stated fails: when the engine refuses the connection, the handlers answer and
  write nothing to the console, so the error is not logged; and the bodies that create,
  list and delete-all send carry the engine's own message.
\<close>

theorem error_not_logged:
  "findOne down (jane\<lparr>params_id := 1\<rparr>) jane_table
     = \<lparr>store = jane_table, status = 500,
        sent = JObj [(''message'', JStr ''Error retrieving customer with id=1'')],
        console = []\<rparr>
   \<and> create down jane jane_table
     = \<lparr>store = jane_table, status = 500,
        sent = JObj [(''message'', JStr ''connect ECONNREFUSED 127.0.0.1:5432'')],
        console = []\<rparr>
   \<and> findAll down jane jane_table
     = \<lparr>store = jane_table, status = 500,
        sent = JObj [(''message'', JStr ''connect ECONNREFUSED 127.0.0.1:5432'')],
        console = []\<rparr>
   \<and> deleteAll down jane jane_table
     = \<lparr>store = jane_table, status = 500,
        sent = JObj [(''message'', JStr ''connect ECONNREFUSED 127.0.0.1:5432'')],
        console = []\<rparr>"
  by (simp add: findOne_def create_def findAll_def deleteAll_def layer_defs respond_def
      message_def show_int_def digits.simps digit_def)

text \<open>
  C8. When the engine raises no error, delete-all answers 200 with the number of
  records deleted, whatever the table holds, and a list request made afterwards
  answers 200 with the empty array.
\<close>

theorem deleteAll_then_findAll:
  assumes "fault drv = None" and "fault drv' = None"
  shows "deleteAll drv req tbl
           = respond (tbl\<lparr>rows := []\<rparr>) 200
               (message (show_int (int (length (rows tbl))) @ '' customers deleted successfully''))
         \<and> findAll drv' req' (store (deleteAll drv req tbl))
           = respond (tbl\<lparr>rows := []\<rparr>) 200 (JArr [])"
  using assms
  by (simp add: deleteAll_def findAll_def Customer_destroy_def Customer_findAll_def respond_def)

theorem deleteAll_then_findAll_witness:
  "deleteAll up jane jane_table
     = respond \<lparr>rows = [], next_id = 2\<rparr> 200 (message ''1 customers deleted successfully'')
   \<and> findAll up jane (store (deleteAll up jane jane_table))
     = respond \<lparr>rows = [], next_id = 2\<rparr> 200 (JArr [])"
proof -
  have f: "fault up = None"
    by simp
  note t = deleteAll_then_findAll [OF f f, where req = jane and req' = jane and tbl = jane_table]
  from t [THEN conjunct1] have a: "deleteAll up jane jane_table
     = respond \<lparr>rows = [], next_id = 2\<rparr> 200 (message ''1 customers deleted successfully'')"
    by (simp add: show_int_def digits.simps digit_def)
  from t [THEN conjunct2] have b: "findAll up jane (store (deleteAll up jane jane_table))
     = respond \<lparr>rows = [], next_id = 2\<rparr> 200 (JArr [])"
    by simp
  from a b show ?thesis
    by (rule conjI)
qed

text \<open>
  C7 (as amended). Take a create request whose \<open>firstname\<close> and \<open>lastname\<close> are
  non-empty strings of at most 255 characters, whose \<open>age\<close> is absent, \<open>null\<close> or an
  integer of 32 bits, and whose \<open>address\<close> is absent, \<open>null\<close> or a string of at most
  255 characters, no string holding the zero character. When the engine raises no
  error, the sequence is not exhausted and
  its next value is not the id of a stored record, the request is answered with status
  201 and the created record, which carries the id the sequence generated and the
  fields of the request; a get-by-id request for that id, made next, is answered with
  status 200 and the same record.
\<close>

theorem create_then_findOne:
  assumes fn: "body req ''firstname'' = Some (JStr f)" "f \<noteq> []" "length f \<le> 255"
      "CHR 0x00 \<notin> set f"
    and ln: "body req ''lastname'' = Some (JStr l)" "l \<noteq> []" "length l \<le> 255"
      "CHR 0x00 \<notin> set l"
    and ag: "optional_integer (body req ''age'')"
    and ad: "optional_string (body req ''address'')"
    and up: "fault drv = None" "fault drv' = None"
    and sq: "int4 (next_id tbl)" "next_id tbl \<notin> id_col ` set (rows tbl)"
  shows "\<exists>c. id_col c = next_id tbl \<and> firstname c = f \<and> lastname c = l
           \<and> age c = (case body req ''age'' of Some (JNum a) \<Rightarrow> Some a | _ \<Rightarrow> None)
           \<and> address c = (case body req ''address'' of Some (JStr s) \<Rightarrow> Some s | _ \<Rightarrow> None)
           \<and> create drv req tbl
               = respond (tbl\<lparr>rows := rows tbl @ [c], next_id := next_id tbl + 1\<rparr>) 201
                   (customer_json c)
           \<and> findOne drv' \<lparr>params_id = id_col c, body = b\<rparr> (store (create drv req tbl))
               = respond (store (create drv req tbl)) 200 (customer_json c)"
proof -
  define c where "c = \<lparr>id_col = next_id tbl, firstname = f, lastname = l,
    age = (case body req ''age'' of Some (JNum a) \<Rightarrow> Some a | _ \<Rightarrow> None),
    address = (case body req ''address'' of Some (JStr s) \<Rightarrow> Some s | _ \<Rightarrow> None),
    createdAt = now drv, updatedAt = now drv\<rparr>"
  let ?vals = "body req |` {''firstname'', ''lastname'', ''age'', ''address''}"
  have v: "insert_violations ?vals = []"
    using fn(1) ln(1) ad by (intro insert_violations_none [of _ f l]) simp_all
  have b: "build ?vals (next_id tbl) (now drv) = Inr c"
    using fn ln by (simp add: build_def and_then_def cell_Some varchar_short
        cell_integer [OF ag] cell_string [OF ad] c_def)
  have cr: "create drv req tbl
      = respond (tbl\<lparr>rows := rows tbl @ [c], next_id := next_id tbl + 1\<rparr>) 201 (customer_json c)"
    using fn ln up sq v b by (simp add: create_def Customer_create_def)
  have "list_all (\<lambda>x. \<not> id_col x = id_col c) (rows tbl)"
    using sq(2) by (simp add: list_all_iff c_def) (metis image_eqI)
  then have "find (\<lambda>x. id_col x = id_col c) (rows tbl @ [c]) = Some c"
    by (rule find_append_last) simp
  moreover have "where_id (id_col c) = Inr (id_col c)"
    using sq(1) by (simp add: where_id_def c_def)
  ultimately have fo: "findOne drv' \<lparr>params_id = id_col c, body = b\<rparr> (store (create drv req tbl))
      = respond (store (create drv req tbl)) 200 (customer_json c)"
    using up by (simp add: cr findOne_def Customer_findByPk_def and_then_def respond_def)
  show ?thesis
    using cr fo by (intro exI [of _ c]) (simp add: c_def)
qed

theorem create_then_findOne_witness:
  "\<exists>c. id_col c = 2 \<and> firstname c = ''Jane'' \<and> lastname c = ''Doe'' \<and> age c = Some 30
       \<and> address c = Some ''12 Main St''
       \<and> create up jane jane_table
           = respond \<lparr>rows = [jane_row, c], next_id = 3\<rparr> 201 (customer_json c)
       \<and> findOne up \<lparr>params_id = id_col c, body = Map.empty\<rparr> (store (create up jane jane_table))
           = respond (store (create up jane jane_table)) 200 (customer_json c)"
proof -
  have "optional_integer (body jane ''age'')" "optional_string (body jane ''address'')"
    by (simp_all add: int4_def)
  moreover have "int4 (next_id jane_table)" "next_id jane_table \<notin> id_col ` set (rows jane_table)"
    by (simp_all add: int4_def)
  ultimately show ?thesis
    using create_then_findOne [where req = jane and drv = up and drv' = up and tbl = jane_table
      and b = Map.empty and f = "''Jane''" and l = "''Doe''"]
    by simp
qed

text \<open>
  C7 as stated fails. Each of these create requests has non-empty names, and none is
  answered with status 201: an age beyond 32 bits; a first name of 256 characters; a
  first name that is the zero character; a request made while the engine refuses the
  connection; a request made after an update has given the stored record the id that
  the sequence hands out next; a request made when the sequence is exhausted.
\<close>

theorem valid_create_not_201:
  "status (create up
     \<lparr>params_id = 0,
      body = [''firstname'' \<mapsto> JStr ''Jane'', ''lastname'' \<mapsto> JStr ''Doe'',
              ''age'' \<mapsto> JNum 2147483648]\<rparr> jane_table) = 500
   \<and> status (create up
     \<lparr>params_id = 0,
      body = [''firstname'' \<mapsto> JStr (replicate 256 CHR ''a''), ''lastname'' \<mapsto> JStr ''Doe'']\<rparr>
     jane_table) = 500
   \<and> status (create up
     \<lparr>params_id = 0,
      body = [''firstname'' \<mapsto> JStr [CHR 0x00], ''lastname'' \<mapsto> JStr ''Doe'']\<rparr>
     jane_table) = 500
   \<and> status (create down jane jane_table) = 500
   \<and> update up \<lparr>params_id = 1, body = [''id'' \<mapsto> JNum 2]\<rparr> jane_table
       = \<lparr>store = \<lparr>rows = [jane_row\<lparr>id_col := 2\<rparr>], next_id = 2\<rparr>, status = 200,
          sent = JObj [(''message'', JStr ''Customer updated successfully'')], console = []\<rparr>
   \<and> create up jane \<lparr>rows = [jane_row\<lparr>id_col := 2\<rparr>], next_id = 2\<rparr>
       = \<lparr>store = \<lparr>rows = [jane_row\<lparr>id_col := 2\<rparr>], next_id = 3\<rparr>, status = 500,
          sent = JObj [(''message'', JStr ''Validation error'')], console = []\<rparr>
   \<and> status (create up jane \<lparr>rows = [], next_id = 2147483648\<rparr>) = 500"
  by (simp add: create_def update_def layer_defs respond_def message_def)

text \<open>
  C6 (as amended). When the data-access layer raises no error: an update request whose
  id matches no stored record is answered with status 404 and leaves the table as it
  was; an update request whose id matches a stored record is answered with status 200
  and a confirmation message when its body names a column of the table other than
  \<open>updatedAt\<close>; and an update request whose body names no such column is answered
  with status 404 and leaves the table as it was, whether its id matches a stored
  record or not.
\<close>

theorem update_by_id:
  "(snd (Customer_update drv (body req) (params_id req) tbl) = Inr n \<and>
    params_id req \<notin> id_col ` set (rows tbl)
      \<longrightarrow> update drv req tbl
            = respond tbl 404
                (message (''Cannot update customer with id='' @ show_int (params_id req))))
   \<and> (snd (Customer_update drv (body req) (params_id req) tbl) = Inr n \<and>
       params_id req \<in> id_col ` set (rows tbl) \<and> distinct (map id_col (rows tbl)) \<and>
       names_column (body req)
      \<longrightarrow> status (update drv req tbl) = 200
          \<and> sent (update drv req tbl) = message ''Customer updated successfully'')
   \<and> (\<not> names_column (body req)
      \<longrightarrow> update drv req tbl
            = respond tbl 404
                (message (''Cannot update customer with id='' @ show_int (params_id req))))"
proof (intro conjI impI)
  assume a: "snd (Customer_update drv (body req) (params_id req) tbl) = Inr n \<and>
    params_id req \<notin> id_col ` set (rows tbl)"
  then have "\<forall>c\<in>set (rows tbl). id_col c \<noteq> params_id req"
    by (metis image_eqI)
  with a have "Customer_update drv (body req) (params_id req) tbl = (tbl, Inr 0)"
    by (intro Customer_update_unmatched [of _ _ _ _ n]) simp_all
  then show "update drv req tbl
            = respond tbl 404
                (message (''Cannot update customer with id='' @ show_int (params_id req)))"
    by (simp add: update_def)
next
  assume a: "snd (Customer_update drv (body req) (params_id req) tbl) = Inr n \<and>
       params_id req \<in> id_col ` set (rows tbl) \<and> distinct (map id_col (rows tbl)) \<and>
       names_column (body req)"
  then obtain x where x: "x \<in> set (rows tbl)" "id_col x = params_id req"
    by auto
  with a have "length (filter (\<lambda>c. id_col c = params_id req) (rows tbl)) = 1"
    using count_one [of id_col "rows tbl" x] by simp
  with a have n: "n = 1"
    using Customer_update_count [of drv "body req" "params_id req" tbl n] by simp
  obtain tbl' where "Customer_update drv (body req) (params_id req) tbl = (tbl', Inr 1)"
    using a n by (cases "Customer_update drv (body req) (params_id req) tbl") simp
  then have u: "update drv req tbl = respond tbl' 200 (message ''Customer updated successfully'')"
    by (simp add: update_def)
  from u show "status (update drv req tbl) = 200"
    by (simp add: respond_def)
  from u show "sent (update drv req tbl) = message ''Customer updated successfully''"
    by (simp add: respond_def)
next
  assume "\<not> names_column (body req)"
  then have "Customer_update drv (body req) (params_id req) tbl = (tbl, Inr 0)"
    by (rule Customer_update_names_nothing)
  then show "update drv req tbl
            = respond tbl 404
                (message (''Cannot update customer with id='' @ show_int (params_id req)))"
    by (simp add: update_def)
qed

theorem update_by_id_witness:
  "update up \<lparr>params_id = 5, body = [''age'' \<mapsto> JNum 31]\<rparr> jane_table
     = respond jane_table 404 (message ''Cannot update customer with id=5'')
   \<and> status (update up \<lparr>params_id = 1, body = [''age'' \<mapsto> JNum 31]\<rparr> jane_table) = 200
   \<and> sent (update up \<lparr>params_id = 1, body = [''age'' \<mapsto> JNum 31]\<rparr> jane_table)
       = message ''Customer updated successfully''
   \<and> update up \<lparr>params_id = 1, body = [''nickname'' \<mapsto> JStr ''JD'']\<rparr> jane_table
     = respond jane_table 404 (message ''Cannot update customer with id=1'')"
proof -
  have h: "snd (Customer_update up [''age'' \<mapsto> JNum 31] 5 jane_table) = Inr 0"
    "snd (Customer_update up [''age'' \<mapsto> JNum 31] 1 jane_table) = Inr 1"
    "names_column [''age'' \<mapsto> JNum 31]"
    "\<not> names_column [''nickname'' \<mapsto> JStr ''JD'']"
    by (simp_all add: layer_defs)
  show ?thesis
    using h
      update_by_id [where req = "\<lparr>params_id = 5, body = [''age'' \<mapsto> JNum 31]\<rparr>"
        and drv = up and tbl = jane_table and n = 0]
      update_by_id [where req = "\<lparr>params_id = 1, body = [''age'' \<mapsto> JNum 31]\<rparr>"
        and drv = up and tbl = jane_table and n = 1]
      update_by_id [where req = "\<lparr>params_id = 1, body = [''nickname'' \<mapsto> JStr ''JD'']\<rparr>"
        and drv = up and tbl = jane_table and n = 0]
    by (simp add: show_int_def digits.simps digit_def)
qed

text \<open>
  C6 as stated fails: the id 1 matches the stored record, the engine is up and raises
  no error, and the update request, whose body is empty, is answered with status 404,
  not 200.
\<close>

theorem update_matching_id_not_200:
  "map id_col (rows jane_table) = [1]
   \<and> snd (Customer_update up Map.empty 1 jane_table) = Inr 0
   \<and> update up \<lparr>params_id = 1, body = Map.empty\<rparr> jane_table
       = \<lparr>store = jane_table, status = 404,
          sent = JObj [(''message'', JStr ''Cannot update customer with id=1'')],
          console = []\<rparr>"
  by (simp add: update_def layer_defs respond_def message_def show_int_def digits.simps
      digit_def)

text \<open>
  C1. Update does not keep every stored first name non-empty: from the table that one
  valid create request leaves, an update request whose body carries an empty
  \<open>firstname\<close> is answered with status 200 and stores the empty first name.
\<close>

theorem update_stores_empty_firstname:
  "store (create up jane empty_table) = jane_table
   \<and> update \<lparr>fault = None, now = 1700000000001\<rparr>
        \<lparr>params_id = 1, body = [''firstname'' \<mapsto> JStr []]\<rparr> jane_table
       = \<lparr>store = \<lparr>rows = [jane_row\<lparr>firstname := [], updatedAt := 1700000000001\<rparr>],
                    next_id = 2\<rparr>,
          status = 200,
          sent = JObj [(''message'', JStr ''Customer updated successfully'')],
          console = []\<rparr>"
  by (simp add: create_def update_def layer_defs respond_def message_def empty_table_def)

section \<open>Properties of the startup sequence\<close>

text \<open>
  C3. Each call of \<open>connectDB\<close> increments the attempt counter. When an attempt fails
  with the counter at \<open>n < 10\<close>, the next \<open>connectDB\<close> is set to run
  \<open>min (5000 * n) 30000\<close> milliseconds later, and when it fails with the counter at 10
  the process exits with status 1. In every run, whatever the database does: at most 10
  attempts are made; every attempt made began at its scheduled time; if the first 10
  attempts all fail, the process exits with status 1 after the tenth, never connected;
  and if attempt \<open>k \<le> 10\<close> is the first to succeed, the run ends connected, after
  exactly \<open>k\<close> attempts, and the process has not exited.
\<close>

theorem startup_retries:
  "maxRetries = 10
   \<and> retries (connectDB db s) = retries s + 1
   \<and> (retries s < maxRetries
      \<longrightarrow> queue (on_error m s) = enqueue (clock s + min (5000 * retries s) 30000) ConnectDB (queue s)
        \<and> exited (on_error m s) = exited s)
   \<and> (\<not> retries s < maxRetries \<longrightarrow> exited (on_error m s) = Some 1)
   \<and> retries (run db (main db)) \<le> maxRetries
   \<and> (\<forall>n. 1 \<le> n \<and> n \<le> retries (run db (main db))
         \<longrightarrow> (scheduled db n, Attempting n) \<in> set (trace (run db (main db))))
   \<and> ((\<forall>n. 1 \<le> n \<and> n \<le> maxRetries \<longrightarrow> \<not> succeeds (db n))
      \<longrightarrow> exited (run db (main db)) = Some 1 \<and> retries (run db (main db)) = maxRetries
        \<and> \<not> dbConnected (run db (main db)))
   \<and> (1 \<le> k \<and> k \<le> maxRetries \<and> succeeds (db k) \<and> (\<forall>n. 1 \<le> n \<and> n < k \<longrightarrow> \<not> succeeds (db n))
      \<longrightarrow> dbConnected (run db (main db)) \<and> exited (run db (main db)) = None
        \<and> retries (run db (main db)) = k)"
proof -
  let ?f = "run db (main db)"
  from final_state(1) [of db] have r: "1 \<le> retries ?f" "retries ?f \<le> maxRetries"
    and fl: "\<And>n. 1 \<le> n \<Longrightarrow> n < retries ?f \<Longrightarrow> \<not> succeeds (db n)"
    and tr: "\<forall>n. 1 \<le> n \<and> n \<le> retries ?f \<longrightarrow> (scheduled db n, Attempting n) \<in> set (trace ?f)"
    by (simp_all add: inv_def)
  note ph = final_phase [of db]
  have a: "retries (connectDB db s) = retries s + 1"
    by (simp add: connectDB_def after_def say_def Let_def)
  have b: "retries s < maxRetries
      \<longrightarrow> queue (on_error m s) = enqueue (clock s + min (5000 * retries s) 30000) ConnectDB (queue s)
        \<and> exited (on_error m s) = exited s"
    by (simp add: on_error_def after_def say_def Let_def)
  have c: "\<not> retries s < maxRetries \<longrightarrow> exited (on_error m s) = Some 1"
    by (simp add: on_error_def after_def say_def Let_def)
  have d: "exited ?f = Some 1 \<and> retries ?f = maxRetries \<and> \<not> dbConnected ?f"
    if "\<forall>n. 1 \<le> n \<and> n \<le> maxRetries \<longrightarrow> \<not> succeeds (db n)"
    using that ph r by auto
  have e: "dbConnected ?f \<and> exited ?f = None \<and> retries ?f = k"
    if k: "1 \<le> k \<and> k \<le> maxRetries \<and> succeeds (db k) \<and> (\<forall>n. 1 \<le> n \<and> n < k \<longrightarrow> \<not> succeeds (db n))"
  proof -
    from ph show ?thesis
    proof
      assume ok: "exited ?f = None \<and> dbConnected ?f \<and> succeeds (db (retries ?f))"
      have "\<not> k < retries ?f"
        using k fl [of k] by auto
      moreover have "\<not> retries ?f < k"
        using k ok r by auto
      ultimately show ?thesis
        using ok by simp
    next
      assume ex: "exited ?f = Some 1 \<and> \<not> dbConnected ?f \<and> \<not> succeeds (db (retries ?f))
        \<and> retries ?f = maxRetries"
      have "k < maxRetries \<or> k = maxRetries"
        using k by auto
      then have False
        using k ex fl [of k] by auto
      then show ?thesis ..
    qed
  qed
  have mr: "maxRetries = 10"
    by (simp add: maxRetries_def)
  from mr a b c r(2) tr d e show ?thesis
    by blast
qed

theorem startup_retries_witness:
  "retries (connectDB (\<lambda>n. refused) (main (\<lambda>n. refused))) = 2
   \<and> queue (on_error ''timeout'' (main (\<lambda>n. refused)))
       = [(100, AuthSettled (Rejected ''connect ECONNREFUSED 127.0.0.1:5432'')),
          (1000, RegisterRoutes), (5000, ConnectDB)]
   \<and> exited (on_error ''timeout'' (start\<lparr>retries := 10\<rparr>)) = Some 1
   \<and> exited (run (\<lambda>n. refused) (main (\<lambda>n. refused))) = Some 1
   \<and> retries (run (\<lambda>n. refused) (main (\<lambda>n. refused))) = 10
   \<and> \<not> dbConnected (run (\<lambda>n. refused) (main (\<lambda>n. refused)))
   \<and> dbConnected (run (\<lambda>n. if n = 3 then accepted else refused)
                      (main (\<lambda>n. if n = 3 then accepted else refused)))
   \<and> exited (run (\<lambda>n. if n = 3 then accepted else refused)
                 (main (\<lambda>n. if n = 3 then accepted else refused))) = None
   \<and> retries (run (\<lambda>n. if n = 3 then accepted else refused)
                  (main (\<lambda>n. if n = 3 then accepted else refused))) = 3
   \<and> (15200, Attempting 3)
       \<in> set (trace (run (\<lambda>n. if n = 3 then accepted else refused)
                         (main (\<lambda>n. if n = 3 then accepted else refused))))"
proof -
  let ?down = "\<lambda>n::nat. refused"
  let ?third = "\<lambda>n::nat. if n = 3 then accepted else refused"
  have q: "queue (main ?down)
      = [(100, AuthSettled (Rejected ''connect ECONNREFUSED 127.0.0.1:5432'')),
         (1000, RegisterRoutes)]"
    "clock (main ?down) = 0" "retries (main ?down) = 1"
    by (simp_all add: startup_defs)
  have s: "scheduled ?third 3 = 15200"
    by (simp add: numeral_3_eq_3 took_def)
  note t1 = startup_retries [where db = ?down and s = "main ?down" and m = "''timeout''"
      and k = 1]
  note t2 = startup_retries [where db = ?down and s = "start\<lparr>retries := 10\<rparr>"
      and m = "''timeout''" and k = 1]
  note t3 = startup_retries [where db = ?third and s = "main ?third" and m = "''timeout''"
      and k = 3]
  have a: "retries (connectDB ?down (main ?down)) = 2"
    using t1 q by simp
  have b: "queue (on_error ''timeout'' (main ?down))
       = [(100, AuthSettled (Rejected ''connect ECONNREFUSED 127.0.0.1:5432'')),
          (1000, RegisterRoutes), (5000, ConnectDB)]"
    using t1 q by (simp add: maxRetries_def)
  have c: "exited (on_error ''timeout'' (start\<lparr>retries := 10\<rparr>)) = Some 1"
    using t2 by (simp add: maxRetries_def start_def)
  have d: "exited (run ?down (main ?down)) = Some 1 \<and> retries (run ?down (main ?down)) = 10
      \<and> \<not> dbConnected (run ?down (main ?down))"
    using t1 by (simp add: maxRetries_def succeeds_def)
  have e: "dbConnected (run ?third (main ?third)) \<and> exited (run ?third (main ?third)) = None
      \<and> retries (run ?third (main ?third)) = 3"
    using t3 by (simp add: maxRetries_def succeeds_def)
  from t3 e have "(scheduled ?third 3, Attempting 3) \<in> set (trace (run ?third (main ?third)))"
    by simp
  with s have f: "(15200, Attempting 3) \<in> set (trace (run ?third (main ?third)))"
    by simp
  from a b c d e f show ?thesis
    by simp
qed

text \<open>
  C2. The customer routes are registered by a timer that fires one second after the
  start, whatever the connection chain has done. With a database that refuses every
  attempt after 100 ms, the process at time 1000 has registered the routes while it is
  waiting to retry, not connected; it goes on to fail all 10 attempts and exits with
  status 1 at time 196000, the routes registered and the schema never synchronized.
\<close>

theorem routes_registered_while_retrying:
  "(step (\<lambda>n. refused) ^^ 2) (main (\<lambda>n. refused))
     = \<lparr>health = True, routes = True, dbConnected = False, retries = 1, clock = 1000,
        queue = [(5100, ConnectDB)], exited = None,
        trace = [(0, HealthRegistered), (0, Attempting 1),
                 (100, DatabaseError ''connect ECONNREFUSED 127.0.0.1:5432''),
                 (100, Retrying 5000), (1000, RoutesRegistered)]\<rparr>
   \<and> routes (run (\<lambda>n. refused) (main (\<lambda>n. refused)))
   \<and> dbConnected (run (\<lambda>n. refused) (main (\<lambda>n. refused))) = False
   \<and> exited (run (\<lambda>n. refused) (main (\<lambda>n. refused))) = Some 1
   \<and> clock (run (\<lambda>n. refused) (main (\<lambda>n. refused))) = 196000
   \<and> filter (\<lambda>(t, e). e = RoutesRegistered \<or> e = Synced)
        (trace (run (\<lambda>n. refused) (main (\<lambda>n. refused))))
       = [(1000, RoutesRegistered)]"
  by (simp add: startup_defs run.simps numeral_2_eq_2)

text \<open>
  C10 (as amended). The health check is registered before the first connection
  attempt: when \<open>app.get('/')\<close> has run, no attempt has been made and nothing is
  scheduled, and the registration stands first in the trace of every state the process
  passes through. In every such state in which the process is running, whatever the
  database has done so far and whatever the driver and the table are, a \<open>GET /\<close> is
  answered with status 200 and the same body, made of a \<open>message\<close> and a \<open>status\<close>
  field; in a state in which the process has exited it is not answered. So the run of
  a database that accepts one of the first 10 attempts ends in a state where \<open>GET /\<close>
  is answered, and the run of a database that refuses all 10 ends in a state where it
  is not.
\<close>

theorem health_check_ignores_database:
  "health (app_get_health start) \<and> retries (app_get_health start) = 0
   \<and> queue (app_get_health start) = []
   \<and> trace (app_get_health start) = [(0, HealthRegistered)]
   \<and> (\<exists>rest. trace ((step db ^^ n) (main db))
                = (0, HealthRegistered) # (0, Attempting 1) # rest)
   \<and> (exited ((step db ^^ n) (main db)) = None
      \<longrightarrow> get_root ((step db ^^ n) (main db)) drv req tbl
          = Some \<lparr>store = tbl, status = 200,
                  sent = JObj [(''message'', JStr ''Customer Management API''),
                               (''status'', JStr ''ok'')],
                  console = []\<rparr>)
   \<and> (exited ((step db ^^ n) (main db)) \<noteq> None
      \<longrightarrow> get_root ((step db ^^ n) (main db)) drv req tbl = None)
   \<and> (1 \<le> k \<and> k \<le> maxRetries \<and> succeeds (db k)
      \<longrightarrow> get_root (run db (main db)) drv req tbl
          = Some \<lparr>store = tbl, status = 200,
                  sent = JObj [(''message'', JStr ''Customer Management API''),
                               (''status'', JStr ''ok'')],
                  console = []\<rparr>)
   \<and> ((\<forall>n. 1 \<le> n \<and> n \<le> maxRetries \<longrightarrow> \<not> succeeds (db n))
      \<longrightarrow> get_root (run db (main db)) drv req tbl = None)"
proof -
  let ?f = "run db (main db)"
  have a: "health (app_get_health start) \<and> retries (app_get_health start) = 0
      \<and> queue (app_get_health start) = []
      \<and> trace (app_get_health start) = [(0, HealthRegistered)]"
    by (simp add: app_get_health_def start_def say_def)
  have m: "health (main db)" "\<exists>rest. trace (main db) = (0, HealthRegistered) # (0, Attempting 1) # rest"
    by (simp_all add: main_def start_def app_get_health_def connectDB_def after_def say_def
        Let_def)
  from m(2) steps_trace [where db = db and n = n and s = "main db"]
  have b: "\<exists>rest. trace ((step db ^^ n) (main db))
      = (0, HealthRegistered) # (0, Attempting 1) # rest"
    by auto
  have c: "exited ((step db ^^ n) (main db)) = None
      \<longrightarrow> get_root ((step db ^^ n) (main db)) drv req tbl
          = Some \<lparr>store = tbl, status = 200,
                  sent = JObj [(''message'', JStr ''Customer Management API''),
                               (''status'', JStr ''ok'')],
                  console = []\<rparr>"
    using m(1) by (simp add: get_root_def steps_health health_check_def respond_def)
  have d: "exited ((step db ^^ n) (main db)) \<noteq> None
      \<longrightarrow> get_root ((step db ^^ n) (main db)) drv req tbl = None"
    by (simp add: get_root_def)
  from final_state(1) [of db] have r: "retries ?f \<le> maxRetries" "1 \<le> retries ?f"
    and fl: "\<And>n. 1 \<le> n \<Longrightarrow> n < retries ?f \<Longrightarrow> \<not> succeeds (db n)"
    by (simp_all add: inv_def)
  note ph = final_phase [of db]
  have e: "get_root ?f drv req tbl
          = Some \<lparr>store = tbl, status = 200,
                  sent = JObj [(''message'', JStr ''Customer Management API''),
                               (''status'', JStr ''ok'')],
                  console = []\<rparr>"
    if k: "1 \<le> k \<and> k \<le> maxRetries \<and> succeeds (db k)"
  proof -
    have "exited ?f = None"
    proof (rule ccontr)
      assume "exited ?f \<noteq> None"
      with ph have x: "\<not> succeeds (db (retries ?f))" "retries ?f = maxRetries"
        by auto
      from k have "k < maxRetries \<or> k = maxRetries"
        by auto
      with k x fl [of k] show False
        by auto
    qed
    with m(1) show ?thesis
      by (simp add: get_root_def run_health health_check_def respond_def)
  qed
  have f: "get_root ?f drv req tbl = None"
    if "\<forall>n. 1 \<le> n \<and> n \<le> maxRetries \<longrightarrow> \<not> succeeds (db n)"
  proof -
    from that ph r have "exited ?f = Some 1"
      by auto
    then show ?thesis
      by (simp add: get_root_def)
  qed
  from a b c d e f show ?thesis
    by blast
qed

theorem health_check_ignores_database_witness:
  "dbConnected ((step (\<lambda>n. refused) ^^ 2) (main (\<lambda>n. refused))) = False
   \<and> get_root ((step (\<lambda>n. refused) ^^ 2) (main (\<lambda>n. refused))) down jane jane_table
       = Some \<lparr>store = jane_table, status = 200,
               sent = JObj [(''message'', JStr ''Customer Management API''),
                            (''status'', JStr ''ok'')],
               console = []\<rparr>
   \<and> dbConnected ((step (\<lambda>n. accepted) ^^ 3) (main (\<lambda>n. accepted))) = True
   \<and> get_root ((step (\<lambda>n. accepted) ^^ 3) (main (\<lambda>n. accepted))) up jane empty_table
       = Some \<lparr>store = empty_table, status = 200,
               sent = JObj [(''message'', JStr ''Customer Management API''),
                            (''status'', JStr ''ok'')],
               console = []\<rparr>
   \<and> exited ((step (\<lambda>n. refused) ^^ 20) (main (\<lambda>n. refused))) = Some 1
   \<and> get_root ((step (\<lambda>n. refused) ^^ 20) (main (\<lambda>n. refused))) down jane jane_table = None
   \<and> get_root (run (\<lambda>n. accepted) (main (\<lambda>n. accepted))) up jane empty_table
       = Some \<lparr>store = empty_table, status = 200,
               sent = JObj [(''message'', JStr ''Customer Management API''),
                            (''status'', JStr ''ok'')],
               console = []\<rparr>
   \<and> get_root (run (\<lambda>n. refused) (main (\<lambda>n. refused))) down jane jane_table = None"
proof -
  have e: "exited ((step (\<lambda>n. refused) ^^ 2) (main (\<lambda>n. refused))) = None"
    "dbConnected ((step (\<lambda>n. refused) ^^ 2) (main (\<lambda>n. refused))) = False"
    "exited ((step (\<lambda>n. accepted) ^^ 3) (main (\<lambda>n. accepted))) = None"
    "dbConnected ((step (\<lambda>n. accepted) ^^ 3) (main (\<lambda>n. accepted))) = True"
    by (simp_all add: startup_defs numeral_2_eq_2 numeral_3_eq_3)
  have x: "exited ((step (\<lambda>n. refused) ^^ 20) (main (\<lambda>n. refused))) = Some 1"
    by (simp add: funpow_numeral_right startup_defs)
  have s: "1 \<le> (1::nat) \<and> 1 \<le> maxRetries \<and> succeeds accepted"
    "\<forall>n. 1 \<le> n \<and> n \<le> maxRetries \<longrightarrow> \<not> succeeds refused"
    by (simp_all add: maxRetries_def succeeds_def)
  from e x s
    health_check_ignores_database [where db = "\<lambda>n. refused" and n = 2 and drv = down
      and req = jane and tbl = jane_table and k = 1]
    health_check_ignores_database [where db = "\<lambda>n. accepted" and n = 3 and drv = up
      and req = jane and tbl = empty_table and k = 1]
    health_check_ignores_database [where db = "\<lambda>n. refused" and n = 20 and drv = down
      and req = jane and tbl = jane_table and k = 1]
  show ?thesis
    by simp
qed

text \<open>
  C10 as stated fails: with a database that refuses every attempt the process has
  exited when the run ends and a \<open>GET /\<close> is not answered, while with a database that
  accepts the first attempt it is answered with status 200.
\<close>

theorem health_check_unanswered_after_exit:
  "exited (run (\<lambda>n. refused) (main (\<lambda>n. refused))) = Some 1
   \<and> get_root (run (\<lambda>n. refused) (main (\<lambda>n. refused))) down jane jane_table = None
   \<and> exited (run (\<lambda>n. accepted) (main (\<lambda>n. accepted))) = None
   \<and> get_root (run (\<lambda>n. accepted) (main (\<lambda>n. accepted))) up jane jane_table
       = Some \<lparr>store = jane_table, status = 200,
               sent = JObj [(''message'', JStr ''Customer Management API''),
                            (''status'', JStr ''ok'')],
               console = []\<rparr>"
  by (simp add: startup_defs run.simps get_root_def health_check_def respond_def)

end
